theory Spec2Isabelle
  imports Complex_Main "HOL-Library.AList" "HOL-Library.Log_Nat"
begin

section \<open>The render backend of Olive: data model\<close>

text \<open>
  This theory embeds \<^verbatim>\<open>app/render/backend/renderbackend.cpp\<close>. Objects that the C++
  code reaches through pointers (nodes, inputs, tickets, workers) are identified by
  values; \<^verbatim>\<open>nullptr\<close> is \<open>None\<close>. Everything the backend mutates is a field of one
  state record that each operation takes and returns.
\<close>

subsection \<open>Nodes, inputs and edges\<close>

type_synonym Node = nat

text \<open>
  Modelled from the spec: the classes \<^verbatim>\<open>Node\<close>, \<^verbatim>\<open>NodeInput\<close>, \<^verbatim>\<open>NodeInputArray\<close>,
  \<^verbatim>\<open>NodeOutput\<close> and \<^verbatim>\<open>NodeParam\<close> are declared outside \<^verbatim>\<open>renderbackend.cpp\<close>. The spec
  describes "a directed graph of nodes connected through typed input/output parameters;
  inputs may be scalar, keyframed, or array-valued (arrays contain sub-inputs)". A
  \<^verbatim>\<open>NodeInput*\<close> is named by its owning node and its id, a \<^verbatim>\<open>NodeOutput*\<close> likewise, and
  an edge runs from an output to an input.
\<close>

datatype NodeInput = NodeInput (parentNode: Node) (input_id: string)

datatype NodeOutput = NodeOutput (output_node: Node) (output_id: string)

type_synonym NodeEdge = "NodeOutput \<times> NodeInput"

text \<open>
  The object graph that both the live nodes and their copies live in, with what the
  backend reads and writes of it: the inputs of each node (array members included), the
  members of each array input, the value of each input, the track type of the nodes that
  are tracks, the edges, and the next node to allocate. Every node of the graph is below
  \<open>next_node\<close>.
\<close>

record NodeGraph =
  node_inputs :: "Node \<Rightarrow> NodeInput list"
  array_sub_params :: "NodeInput \<Rightarrow> NodeInput list option"
  input_values :: "NodeInput \<Rightarrow> int"
  track_type :: "Node \<Rightarrow> nat option"
  edges :: "NodeEdge list"
  next_node :: Node

definition IsArray :: "NodeGraph \<Rightarrow> NodeInput \<Rightarrow> bool" where
  "IsArray g i = (array_sub_params g i \<noteq> None)"

definition sub_params :: "NodeGraph \<Rightarrow> NodeInput \<Rightarrow> NodeInput list" where
  "sub_params g i = (case array_sub_params g i of None \<Rightarrow> [] | Some ms \<Rightarrow> ms)"

text \<open>
  Modelled from the spec: \<^verbatim>\<open>Node::OutputsTo(NodeInput*, bool, bool)\<close> is not part of
  \<^verbatim>\<open>renderbackend.cpp\<close>. The spec reads it as "one's source node transitively feeds the
  other's location": some edge leaves an output of the node and enters the input, or
  (second flag) enters an input of a node that in turn outputs to it. The third flag is
  read as: an edge into a member of an array input counts as an edge into the array.
  The search is bounded by the number of edges plus one, which every simple path obeys.
\<close>

fun outputs_to_bounded ::
  "nat \<Rightarrow> NodeGraph \<Rightarrow> bool \<Rightarrow> bool \<Rightarrow> Node \<Rightarrow> NodeInput \<Rightarrow> bool" where
  "outputs_to_bounded 0 g recursively include_arrays n i = False"
| "outputs_to_bounded (Suc k) g recursively include_arrays n i =
     list_ex (\<lambda>e. output_node (fst e) = n \<and>
                (snd e = i
                 \<or> (include_arrays \<and> snd e \<in> set (sub_params g i))
                 \<or> (recursively \<and>
                     outputs_to_bounded k g recursively include_arrays (parentNode (snd e)) i)))
       (edges g)"

definition OutputsTo :: "NodeGraph \<Rightarrow> Node \<Rightarrow> NodeInput \<Rightarrow> bool \<Rightarrow> bool \<Rightarrow> bool" where
  "OutputsTo g n i recursively include_arrays =
     outputs_to_bounded (Suc (length (edges g))) g recursively include_arrays n i"

subsection \<open>Tickets, workers and jobs\<close>

datatype TicketType = kTypeHash | kTypeVideo | kTypeAudio

record TimeRange =
  range_in :: rat
  range_out :: rat

text \<open>
  Modelled from the spec: \<^verbatim>\<open>RenderTicket\<close>, \<^verbatim>\<open>TimeRange\<close> and \<^verbatim>\<open>rational\<close> are declared
  outside \<^verbatim>\<open>renderbackend.cpp\<close>. A ticket has a "request kind (one of {Hash, Frame,
  AudioRange}), request payload (one of: list of time points; a single time point; a time
  range), ... a cancellation flag". The payload is the \<^verbatim>\<open>QVariant\<close> the ticket is made
  with; a \<^verbatim>\<open>rational\<close> is a rational number.
\<close>

datatype TicketTime = Times "rat list" | Time rat | Range TimeRange

record RenderTicket =
  ticket_type :: TicketType
  ticket_time :: TicketTime
  cancelled :: bool

type_synonym RenderTicketPtr = nat

datatype RenderMode = kOffline | kOnline

text \<open>
  Modelled from the spec: \<^verbatim>\<open>VideoParams\<close> and \<^verbatim>\<open>AudioParams\<close> are declared outside
  \<^verbatim>\<open>renderbackend.cpp\<close>. They are the "video/audio output parameters", which may be
  "unset/invalid"; the backend stores them, hands them to workers and asks
  \<^verbatim>\<open>is_valid()\<close>, which is the last field here.
\<close>

record VideoParams =
  video_width :: int
  video_height :: int
  video_is_valid :: bool

record AudioParams =
  audio_sample_rate :: int
  audio_is_valid :: bool

type_synonym RenderWorkerPtr = nat

text \<open>
  Modelled from the spec: \<^verbatim>\<open>RenderWorker\<close> is declared outside \<^verbatim>\<open>renderbackend.cpp\<close>. The
  record holds what the dispatch loop sets on a worker before it submits a job: the
  "current render configuration (video/audio parameters, output color transform, render
  mode, optional preview-cache target)" and the copy map.
\<close>

record RenderWorker =
  worker_video_params :: VideoParams
  worker_audio_params :: AudioParams
  worker_video_download_matrix :: "int list"
  worker_render_mode :: RenderMode
  worker_preview_generation :: "(Node \<times> int) option"
  worker_has_copy_map :: bool

record WorkerData =
  worker :: RenderWorkerPtr
  busy :: bool

text \<open>One call of \<^verbatim>\<open>QtConcurrent::run(&pool_, worker, method, ticket, viewer, time)\<close>.\<close>

record Job =
  job_worker :: RenderWorkerPtr
  job_method :: TicketType
  job_ticket :: RenderTicketPtr
  job_viewer :: "Node option"
  job_time :: TicketTime

subsection \<open>The backend's state\<close>

record RenderBackend =
  viewer_node :: "Node option"
  copied_viewer_node :: "Node option"
  update_with_graph :: bool
  preview_job_time :: int
  render_mode :: RenderMode
  video_params :: VideoParams
  audio_params :: AudioParams
  video_download_matrix :: "int list"
  render_queue :: "RenderTicketPtr list"
  graph_update_queue :: "NodeInput list"
  copy_map :: "(Node \<times> Node) list"
  workers :: "WorkerData list"
  pool_jobs :: "Job list"
  pool_max_thread_count :: nat
  tickets :: "RenderTicketPtr \<Rightarrow> RenderTicket"
  next_ticket :: RenderTicketPtr
  render_workers :: "RenderWorkerPtr \<Rightarrow> RenderWorker"
  next_worker :: RenderWorkerPtr
  graph :: NodeGraph
  queued_invocations :: nat
  graph_changed_connections :: "Node list"
  delete_later :: "Node list"

text \<open>
  The ways a call can fail to return: a \<^verbatim>\<open>Q_ASSERT\<close> that does not hold, a call through a
  null pointer, an index past the end of a list, signed overflow of an \<^verbatim>\<open>int\<close>, and a
  recursion that has not ended after the given number of steps.
\<close>

datatype error = AssertionFailed | NullPointer | OutOfRange | IntegerOverflow | OutOfFuel

section \<open>Operations\<close>

subsection \<open>NodeGraphChanged: queueing an input for copying\<close>

text \<open>
  The \<^verbatim>\<open>for\<close> loop of \<^verbatim>\<open>NodeGraphChanged\<close> walks the queue by index and removes entries
  on the way. Here \<open>kept\<close> holds the entries before index \<open>i\<close> and the list argument the
  entries from \<open>i\<close> on, so the queue at any moment is \<open>kept @ rest\<close>. An early \<^verbatim>\<open>return\<close>
  leaves the queue as it is at that point; reaching the end appends the source.
\<close>

fun NodeGraphChanged_loop ::
  "NodeGraph \<Rightarrow> NodeInput \<Rightarrow> NodeInput list \<Rightarrow> NodeInput list \<Rightarrow> NodeInput list" where
  "NodeGraphChanged_loop g source kept [] = kept @ [source]"
| "NodeGraphChanged_loop g source kept (queued_input # rest) =
     (if source = queued_input then kept @ queued_input # rest
      else if OutputsTo g (parentNode source) queued_input True True
        then kept @ queued_input # rest
      else if IsArray g queued_input \<and> source \<in> set (sub_params g queued_input)
        then kept @ queued_input # rest
      else if OutputsTo g (parentNode queued_input) source True True
              \<or> (IsArray g source \<and> queued_input \<in> set (sub_params g source))
        then NodeGraphChanged_loop g source kept rest
      else NodeGraphChanged_loop g source (kept @ [queued_input]) rest)"

text \<open>
  \<^verbatim>\<open>copy_map_.value(k)\<close> is null when the key is absent. \<^verbatim>\<open>Q_ASSERT\<close> aborts the
  program when its condition is false; that is the result \<open>Inl AssertionFailed\<close>.
\<close>

definition NodeGraphChanged :: "NodeInput \<Rightarrow> RenderBackend \<Rightarrow> error + RenderBackend" where
  "NodeGraphChanged source st =
     (case map_of (copy_map st) (parentNode source) of
        None \<Rightarrow>
          if graph_update_queue st = [] then Inl AssertionFailed else Inr st
      | Some our_copy_node \<Rightarrow>
          Inr (st\<lparr>graph_update_queue :=
                   NodeGraphChanged_loop (graph st) source [] (graph_update_queue st)\<rparr>))"

subsection \<open>What the backend calls on nodes and inputs\<close>

text \<open>
  Modelled from the spec: the members of \<^verbatim>\<open>Node\<close>, \<^verbatim>\<open>NodeInput\<close> and \<^verbatim>\<open>NodeParam\<close> used
  below are not part of \<^verbatim>\<open>renderbackend.cpp\<close>. The spec lists them as the interface
  consumed from the live graph: "deep-clone a single node's static type/config, no
  edges/values", "copy scalar/keyframe state between two nodes' matching inputs",
  "enumerate a node's inputs (including array sub-inputs), resolve an input's connected
  node/output by identifier, enumerate a node's exclusive (non-shared) dependency set,
  enumerate/disconnect a node's edges, connect an edge between a source output and
  destination input".
\<close>

text \<open>
  The two inputs of a \<^verbatim>\<open>ViewerOutput\<close> that the backend copies from, "the texture/video
  input and the samples/audio input".
\<close>

definition texture_input :: "Node \<Rightarrow> NodeInput" where
  "texture_input v = NodeInput v ''tex_in''"

definition samples_input :: "Node \<Rightarrow> NodeInput" where
  "samples_input v = NodeInput v ''samples_in''"

definition input_edges :: "NodeGraph \<Rightarrow> NodeInput \<Rightarrow> NodeEdge list" where
  "input_edges g i = filter (\<lambda>e. snd e = i) (edges g)"

definition is_connected :: "NodeGraph \<Rightarrow> NodeInput \<Rightarrow> bool" where
  "is_connected g i = (input_edges g i \<noteq> [])"

definition get_connected_output :: "NodeGraph \<Rightarrow> NodeInput \<Rightarrow> NodeOutput option" where
  "get_connected_output g i = (case input_edges g i of [] \<Rightarrow> None | e # _ \<Rightarrow> Some (fst e))"

definition output_edges :: "NodeGraph \<Rightarrow> NodeOutput \<Rightarrow> NodeEdge list" where
  "output_edges g out = filter (\<lambda>e. fst e = out) (edges g)"

definition GetInputsIncludingArrays :: "NodeGraph \<Rightarrow> Node \<Rightarrow> NodeInput list" where
  "GetInputsIncludingArrays g n = node_inputs g n"

definition GetInputWithID :: "NodeGraph \<Rightarrow> Node \<Rightarrow> string \<Rightarrow> NodeInput option" where
  "GetInputWithID g n ident = find (\<lambda>i. input_id i = ident) (node_inputs g n)"

definition GetOutputWithID :: "NodeGraph \<Rightarrow> Node \<Rightarrow> string \<Rightarrow> NodeOutput" where
  "GetOutputWithID g n ident = NodeOutput n ident"

definition CopyValues :: "NodeInput \<Rightarrow> NodeInput \<Rightarrow> NodeGraph \<Rightarrow> NodeGraph" where
  "CopyValues src dst g = g\<lparr>input_values := (input_values g)(dst := input_values g src)\<rparr>"

definition CopyInputs :: "Node \<Rightarrow> Node \<Rightarrow> NodeGraph \<Rightarrow> NodeGraph" where
  "CopyInputs src dst g =
     fold (\<lambda>i. CopyValues i (NodeInput dst (input_id i))) (node_inputs g src) g"

text \<open>
  Modelled from the spec: "connect an edge between a source output and destination
  input". An input holds one edge: connecting it drops the edge it had.
\<close>

definition ConnectEdge :: "NodeOutput \<Rightarrow> NodeInput \<Rightarrow> NodeGraph \<Rightarrow> NodeGraph" where
  "ConnectEdge out i g = g\<lparr>edges := filter (\<lambda>e. snd e \<noteq> i) (edges g) @ [(out, i)]\<rparr>"

definition DisconnectEdge :: "NodeEdge \<Rightarrow> NodeGraph \<Rightarrow> NodeGraph" where
  "DisconnectEdge e g = g\<lparr>edges := remove1 e (edges g)\<rparr>"

text \<open>
  Modelled from the spec: \<^verbatim>\<open>Node::copy()\<close> is to "deep-clone a single node's static
  type/config, no edges/values": a new node of the same class, with inputs of the same
  ids and the same array structure, default values and no edges. A copied track has the
  default track type 0.
\<close>

definition Node_copy :: "Node \<Rightarrow> NodeGraph \<Rightarrow> Node \<times> NodeGraph" where
  "Node_copy n g =
     (let c = next_node g in
      (c, g\<lparr> node_inputs := (node_inputs g)(c := map (\<lambda>i. NodeInput c (input_id i)) (node_inputs g n)),
            array_sub_params := (\<lambda>i.
              if parentNode i = c
              then map_option (map (\<lambda>m. NodeInput c (input_id m)))
                     (array_sub_params g (NodeInput n (input_id i)))
              else array_sub_params g i),
            input_values := (\<lambda>i. if parentNode i = c then 0 else input_values g i),
            track_type := (track_type g)(c := map_option (\<lambda>t. 0) (track_type g n)),
            next_node := Suc c \<rparr>))"

text \<open>
  Modelled from the spec: \<^verbatim>\<open>NodeInput::GetExclusiveDependencies()\<close> is to "enumerate a
  node's exclusive (non-shared) dependency set": the node connected to the input, when
  the connected output has no other edge, and in turn the exclusive dependencies of that
  node's inputs. Every step adds a node not yet listed, so a depth of \<open>next_node g\<close>
  reaches all of them.
\<close>

fun GetDependencies :: "nat \<Rightarrow> NodeGraph \<Rightarrow> NodeInput \<Rightarrow> Node list \<Rightarrow> Node list" where
  "GetDependencies 0 g i deps = deps"
| "GetDependencies (Suc k) g i deps =
     (case get_connected_output g i of
        None \<Rightarrow> deps
      | Some out \<Rightarrow>
          if length (output_edges g out) = 1 \<and> output_node out \<notin> set deps
          then fold (\<lambda>j acc. GetDependencies k g j acc)
                 (GetInputsIncludingArrays g (output_node out)) (deps @ [output_node out])
          else deps)"

definition GetExclusiveDependencies :: "NodeGraph \<Rightarrow> NodeInput \<Rightarrow> Node list" where
  "GetExclusiveDependencies g i = GetDependencies (next_node g) g i []"

subsection \<open>Tickets\<close>

text \<open>\<^verbatim>\<open>std::make_shared<RenderTicket>(type, time)\<close>: a new ticket, not cancelled.\<close>

definition make_RenderTicket ::
  "TicketType \<Rightarrow> TicketTime \<Rightarrow> RenderBackend \<Rightarrow> RenderTicketPtr \<times> RenderBackend" where
  "make_RenderTicket ty time st =
     (next_ticket st,
      st\<lparr>tickets := (tickets st)(next_ticket st :=
                        \<lparr> ticket_type = ty, ticket_time = time, cancelled = False \<rparr>),
         next_ticket := Suc (next_ticket st)\<rparr>)"

text \<open>Modelled from the spec: \<^verbatim>\<open>RenderTicket::Cancel()\<close> "marks ticket canceled".\<close>

definition Cancel :: "RenderTicketPtr \<Rightarrow> RenderBackend \<Rightarrow> RenderBackend" where
  "Cancel t st = st\<lparr>tickets := (tickets st)(t := (tickets st t)\<lparr>cancelled := True\<rparr>)\<rparr>"

definition new_RenderWorker :: RenderWorker where
  "new_RenderWorker =
     \<lparr> worker_video_params = \<lparr> video_width = 0, video_height = 0, video_is_valid = False \<rparr>,
       worker_audio_params = \<lparr> audio_sample_rate = 0, audio_is_valid = False \<rparr>,
       worker_video_download_matrix = [],
       worker_render_mode = kOnline,
       worker_preview_generation = None,
       worker_has_copy_map = False \<rparr>"

subsection \<open>Copying the graph\<close>

text \<open>
  \<^verbatim>\<open>CopyNodeConnections\<close> and \<^verbatim>\<open>CopyNodeMakeConnection\<close> call each other along the
  edges of the live graph, and do not end on a cyclic graph. The first argument bounds
  the depth of the calls; \<open>Inl OutOfFuel\<close> is the call that has not returned within it.
  \<open>CopyNodeConnections_loop\<close> is the \<^verbatim>\<open>for\<close> loop over the two input lists;
  \<^verbatim>\<open>dst_node_inputs.at(i)\<close> past the end of the list is \<open>Inl OutOfRange\<close>.
  \<open>copy_of_node\<close> is the start of \<^verbatim>\<open>CopyNodeConnections\<close>: the copy found in the map, or a
  new copy that is entered into it (a copied track takes the track type of its source).
  The connected node of an input, \<^verbatim>\<open>get_connected_node()\<close>, is the node of its connected
  output.
\<close>

definition copy_of_node :: "Node \<Rightarrow> RenderBackend \<Rightarrow> Node \<times> RenderBackend" where
  "copy_of_node src_node st =
     (case map_of (copy_map st) src_node of
        Some dst_node \<Rightarrow> (dst_node, st)
      | None \<Rightarrow>
          (let (dst_node, g1) = Node_copy src_node (graph st);
               g2 = (if track_type g1 dst_node \<noteq> None
                     then g1\<lparr>track_type := (track_type g1)(dst_node := track_type g1 src_node)\<rparr>
                     else g1)
           in (dst_node, st\<lparr>graph := g2, copy_map := AList.update src_node dst_node (copy_map st)\<rparr>)))"

fun CopyNodeConnections :: "nat \<Rightarrow> Node \<Rightarrow> RenderBackend \<Rightarrow> error + (Node \<times> RenderBackend)"
  and CopyNodeMakeConnection :: "nat \<Rightarrow> NodeInput \<Rightarrow> NodeInput \<Rightarrow> RenderBackend \<Rightarrow> error + RenderBackend"
  and CopyNodeConnections_loop ::
    "nat \<Rightarrow> NodeInput list \<Rightarrow> NodeInput list \<Rightarrow> RenderBackend \<Rightarrow> error + RenderBackend"
where
  "CopyNodeConnections 0 src_node st = Inl OutOfFuel"
| "CopyNodeConnections (Suc k) src_node st =
     (case copy_of_node src_node st of
        (dst_node, st1) \<Rightarrow>
          (case CopyNodeConnections_loop k
                  (GetInputsIncludingArrays (CopyInputs src_node dst_node (graph st1)) src_node)
                  (GetInputsIncludingArrays (CopyInputs src_node dst_node (graph st1)) dst_node)
                  (st1\<lparr>graph := CopyInputs src_node dst_node (graph st1)\<rparr>) of
             Inl e \<Rightarrow> Inl e
           | Inr st2 \<Rightarrow> Inr (dst_node, st2)))"
| "CopyNodeMakeConnection k src_input dst_input st =
     (case get_connected_output (graph st) src_input of
        None \<Rightarrow> Inr st
      | Some out \<Rightarrow>
          (case CopyNodeConnections k (output_node out) st of
             Inl e \<Rightarrow> Inl e
           | Inr (dst_node, st1) \<Rightarrow>
               Inr (st1\<lparr>graph :=
                         ConnectEdge (GetOutputWithID (graph st1) dst_node (output_id out))
                           dst_input (graph st1)\<rparr>)))"
| "CopyNodeConnections_loop k [] dst_node_inputs st = Inr st"
| "CopyNodeConnections_loop k (src_input # src_rest) [] st = Inl OutOfRange"
| "CopyNodeConnections_loop k (src_input # src_rest) (dst_input # dst_rest) st =
     (case CopyNodeMakeConnection k src_input dst_input st of
        Inl e \<Rightarrow> Inl e
      | Inr st1 \<Rightarrow> CopyNodeConnections_loop k src_rest dst_rest st1)"

text \<open>
  \<^verbatim>\<open>copy_map_.key(v)\<close> is the key stored with the value, or null. \<^verbatim>\<open>copy_map_.take(k)\<close>
  removes the key and returns its value, or null if the key is absent, on which
  \<^verbatim>\<open>deleteLater()\<close> is a call through a null pointer.
\<close>

definition copy_map_key :: "(Node \<times> Node) list \<Rightarrow> Node \<Rightarrow> Node option" where
  "copy_map_key m v = map_option fst (find (\<lambda>kv. snd kv = v) m)"

fun remove_old_dependencies :: "Node list \<Rightarrow> RenderBackend \<Rightarrow> error + RenderBackend" where
  "remove_old_dependencies [] st = Inr st"
| "remove_old_dependencies (i # old_deps) st =
     (case copy_map_key (copy_map st) i of
        None \<Rightarrow> Inl NullPointer
      | Some k \<Rightarrow>
          remove_old_dependencies old_deps
            (st\<lparr>copy_map := AList.delete k (copy_map st),
                delete_later := delete_later st @ [i]\<rparr>))"

text \<open>The \<^verbatim>\<open>while\<close> loop that disconnects the first edge of an input until it has none.\<close>

function disconnect_all_edges :: "NodeInput \<Rightarrow> NodeGraph \<Rightarrow> NodeGraph" where
  "disconnect_all_edges i g =
     (case input_edges g i of
        [] \<Rightarrow> g
      | e # _ \<Rightarrow> disconnect_all_edges i (DisconnectEdge e g))"
  by pat_completeness auto

termination
proof (relation "measure (\<lambda>(i, g). length (edges g))")
  show "wf (measure (\<lambda>(i, g). length (edges g)))" by simp
next
  fix i :: NodeInput and g :: NodeGraph and e es
  assume "input_edges g i = e # es"
  then have "e \<in> set (filter (\<lambda>e. snd e = i) (edges g))"
    by (simp add: input_edges_def)
  then have "e \<in> set (edges g)" by simp
  then have "length (remove1 e (edges g)) < length (edges g)"
    using length_pos_if_in_set [of e "edges g"] by (simp add: length_remove1)
  then show "((i, DisconnectEdge e g), (i, g)) \<in> measure (\<lambda>(i, g). length (edges g))"
    by (simp add: DisconnectEdge_def)
qed

declare disconnect_all_edges.simps [simp del]

text \<open>
  The part of \<^verbatim>\<open>CopyNodeInputValue\<close> under "Handle connections": if the live input or
  its copy is connected, the copy's exclusive dependencies leave the copy map and are
  handed to \<^verbatim>\<open>deleteLater()\<close>, the copy's edges are disconnected, and the connection
  of the live input is copied.
\<close>

definition CopyNodeInputValue_connections ::
  "nat \<Rightarrow> NodeInput \<Rightarrow> NodeInput \<Rightarrow> RenderBackend \<Rightarrow> error + RenderBackend" where
  "CopyNodeInputValue_connections k input our_copy st =
     (if is_connected (graph st) input \<or> is_connected (graph st) our_copy
      then (case remove_old_dependencies (GetExclusiveDependencies (graph st) our_copy) st of
              Inl e \<Rightarrow> Inl e
            | Inr st1 \<Rightarrow>
                CopyNodeMakeConnection k input our_copy
                  (st1\<lparr>graph := disconnect_all_edges our_copy (graph st1)\<rparr>))
      else Inr st)"

text \<open>
  \<^verbatim>\<open>CopyNodeInputValue\<close> calls itself on the members of an array input;
  \<open>CopyNodeInputValue_members\<close> is that \<^verbatim>\<open>foreach\<close>. The fuel bounds the depth of these
  calls and of the copying of connections below them. A node without a copy fails the
  \<^verbatim>\<open>Q_ASSERT\<close>; a copy without an input of that id is a null \<^verbatim>\<open>our_copy\<close>.
\<close>

fun CopyNodeInputValue :: "nat \<Rightarrow> NodeInput \<Rightarrow> RenderBackend \<Rightarrow> error + RenderBackend"
  and CopyNodeInputValue_members ::
    "nat \<Rightarrow> NodeInput list \<Rightarrow> RenderBackend \<Rightarrow> error + RenderBackend"
where
  "CopyNodeInputValue 0 input st = Inl OutOfFuel"
| "CopyNodeInputValue (Suc k) input st =
     (case map_of (copy_map st) (parentNode input) of
        None \<Rightarrow> Inl AssertionFailed
      | Some our_copy_node \<Rightarrow>
          (case GetInputWithID (graph st) our_copy_node (input_id input) of
             None \<Rightarrow> Inl NullPointer
           | Some our_copy \<Rightarrow>
               (case CopyNodeInputValue_connections k input our_copy
                       (st\<lparr>graph := CopyValues input our_copy (graph st)\<rparr>) of
                  Inl e \<Rightarrow> Inl e
                | Inr st1 \<Rightarrow>
                    if IsArray (graph st1) input
                    then CopyNodeInputValue_members k (sub_params (graph st1) input) st1
                    else Inr st1)))"
| "CopyNodeInputValue_members k [] st = Inr st"
| "CopyNodeInputValue_members k (i # members) st =
     (case CopyNodeInputValue k i st of
        Inl e \<Rightarrow> Inl e
      | Inr st1 \<Rightarrow> CopyNodeInputValue_members k members st1)"

text \<open>
  The copying only writes the object graph, the copy map and the list of nodes handed
  to \<^verbatim>\<open>deleteLater()\<close>; \<open>only_snapshot_changed st st'\<close> says that nothing else differs.
\<close>

definition only_snapshot_changed :: "RenderBackend \<Rightarrow> RenderBackend \<Rightarrow> bool" where
  "only_snapshot_changed st st' =
     (viewer_node st' = viewer_node st \<and>
      copied_viewer_node st' = copied_viewer_node st \<and>
      update_with_graph st' = update_with_graph st \<and>
      preview_job_time st' = preview_job_time st \<and>
      render_mode st' = render_mode st \<and>
      video_params st' = video_params st \<and>
      audio_params st' = audio_params st \<and>
      video_download_matrix st' = video_download_matrix st \<and>
      render_queue st' = render_queue st \<and>
      graph_update_queue st' = graph_update_queue st \<and>
      workers st' = workers st \<and>
      pool_jobs st' = pool_jobs st \<and>
      pool_max_thread_count st' = pool_max_thread_count st \<and>
      tickets st' = tickets st \<and>
      next_ticket st' = next_ticket st \<and>
      render_workers st' = render_workers st \<and>
      next_worker st' = next_worker st \<and>
      queued_invocations st' = queued_invocations st \<and>
      graph_changed_connections st' = graph_changed_connections st)"

subsection \<open>ProcessUpdateQueue\<close>

text \<open>
  The \<^verbatim>\<open>while\<close> loop takes the first queued input and copies it, until none is left.
  The copying does not touch the queue, so every round shortens it; this is shown with
  the properties below.
\<close>

function ProcessUpdateQueue :: "nat \<Rightarrow> RenderBackend \<Rightarrow> error + RenderBackend" where
  "ProcessUpdateQueue fuel st =
     (case graph_update_queue st of
        [] \<Rightarrow> Inr st
      | i # rest \<Rightarrow>
          (case CopyNodeInputValue fuel i (st\<lparr>graph_update_queue := rest\<rparr>) of
             Inl e \<Rightarrow> Inl e
           | Inr st1 \<Rightarrow> ProcessUpdateQueue fuel st1))"
  by pat_completeness auto

subsection \<open>SetViewerNode and ClearVideoQueue\<close>

text \<open>
  \<^verbatim>\<open>pool_.clear(); pool_.waitForDone()\<close> leaves the thread pool with no job queued or
  running. \<^verbatim>\<open>connect\<close> adds the viewer to the nodes whose \<^verbatim>\<open>GraphChangedFrom\<close> signal
  reaches \<^verbatim>\<open>NodeGraphChanged\<close>; \<^verbatim>\<open>disconnect\<close> removes it. \<^verbatim>\<open>deleteLater()\<close> appends
  the node to \<open>delete_later\<close>.
\<close>

definition SetViewerNode ::
  "nat \<Rightarrow> Node option \<Rightarrow> RenderBackend \<Rightarrow> error + RenderBackend" where
  "SetViewerNode fuel new_viewer_node st =
     (if viewer_node st = new_viewer_node then Inr st
      else
        let old_viewer = viewer_node st;
            st1 = (if new_viewer_node = None then st\<lparr>viewer_node := new_viewer_node\<rparr> else st);
            st2 = (case old_viewer of
                     None \<Rightarrow> st1
                   | Some old \<Rightarrow>
                       (let a = st1\<lparr>pool_jobs := []\<rparr>;
                            b = (fold Cancel (render_queue a) a)\<lparr>render_queue := []\<rparr>;
                            c = b\<lparr>delete_later := delete_later b @ map snd (copy_map b)\<rparr>
                        in c\<lparr>copy_map := [],
                             copied_viewer_node := None,
                             graph_update_queue := [],
                             graph_changed_connections :=
                               removeAll old (graph_changed_connections c)\<rparr>));
            st3 = (if new_viewer_node \<noteq> None then st2\<lparr>viewer_node := new_viewer_node\<rparr> else st2)
        in case viewer_node st3 of
             None \<Rightarrow> Inr st3
           | Some v \<Rightarrow>
               (let (c, g) = Node_copy v (graph st3);
                    st4 = st3\<lparr>graph := g, copied_viewer_node := Some c,
                              copy_map := AList.update v c (copy_map st3)\<rparr>
                in case NodeGraphChanged (texture_input v) st4 of
                     Inl e \<Rightarrow> Inl e
                   | Inr st5 \<Rightarrow>
                       (case NodeGraphChanged (samples_input v) st5 of
                          Inl e \<Rightarrow> Inl e
                        | Inr st6 \<Rightarrow>
                            (case ProcessUpdateQueue fuel st6 of
                               Inl e \<Rightarrow> Inl e
                             | Inr st7 \<Rightarrow>
                                 Inr (if update_with_graph st7
                                      then st7\<lparr>graph_changed_connections :=
                                                 graph_changed_connections st7 @ [v]\<rparr>
                                      else st7)))))"

definition ClearVideoQueue :: "RenderBackend \<Rightarrow> RenderBackend" where
  "ClearVideoQueue st = (fold Cancel (render_queue st) st)\<lparr>render_queue := []\<rparr>"

subsection \<open>Hash, RenderFrame, RenderAudio\<close>

text \<open>
  Each returns the ticket (or null) and the new state.
  \<^verbatim>\<open>QMetaObject::invokeMethod(this, "RunNextJob", Qt::QueuedConnection)\<close> posts one call
  of \<^verbatim>\<open>RunNextJob\<close> to the event loop; \<open>queued_invocations\<close> counts the calls posted.
\<close>

definition submit_ticket ::
  "TicketType \<Rightarrow> TicketTime \<Rightarrow> RenderBackend \<Rightarrow> RenderTicketPtr option \<times> RenderBackend" where
  "submit_ticket ty time st =
     (case viewer_node st of
        None \<Rightarrow> (None, st)
      | Some v \<Rightarrow>
          (let (ticket, st1) = make_RenderTicket ty time st;
               st2 = st1\<lparr>render_queue := render_queue st1 @ [ticket]\<rparr>;
               st3 = st2\<lparr>queued_invocations := Suc (queued_invocations st2)\<rparr>
           in (Some ticket, st3)))"

definition Hash :: "rat list \<Rightarrow> RenderBackend \<Rightarrow> RenderTicketPtr option \<times> RenderBackend" where
  "Hash ts st = submit_ticket kTypeHash (Times ts) st"

definition RenderFrame :: "rat \<Rightarrow> RenderBackend \<Rightarrow> RenderTicketPtr option \<times> RenderBackend" where
  "RenderFrame time st = submit_ticket kTypeVideo (Time time) st"

definition RenderAudio :: "TimeRange \<Rightarrow> RenderBackend \<Rightarrow> RenderTicketPtr option \<times> RenderBackend" where
  "RenderAudio r st = submit_ticket kTypeAudio (Range r) st"

definition SetVideoParams :: "VideoParams \<Rightarrow> RenderBackend \<Rightarrow> RenderBackend" where
  "SetVideoParams params st = st\<lparr>video_params := params\<rparr>"

definition SetAudioParams :: "AudioParams \<Rightarrow> RenderBackend \<Rightarrow> RenderBackend" where
  "SetAudioParams params st = st\<lparr>audio_params := params\<rparr>"

subsection \<open>RunNextJob and WorkerFinished\<close>

definition all_workers_available :: "RenderBackend \<Rightarrow> bool" where
  "all_workers_available st = (\<not> list_ex busy (workers st))"

text \<open>
  "If we have no workers allocated, allocate them now": one new worker per thread of the
  pool, none busy.
\<close>

definition allocate_workers :: "RenderBackend \<Rightarrow> RenderBackend" where
  "allocate_workers st =
     (if workers st = []
      then st\<lparr>workers := map (\<lambda>i. \<lparr> worker = next_worker st + i, busy = False \<rparr>)
                            [0..<pool_max_thread_count st],
              render_workers := (\<lambda>w. if next_worker st \<le> w
                                        \<and> w < next_worker st + pool_max_thread_count st
                                      then new_RenderWorker else render_workers st w),
              next_worker := next_worker st + pool_max_thread_count st\<rparr>
      else st)"

text \<open>
  "This worker is available, send it the job": the worker in slot \<open>i\<close> is marked busy
  and receives the backend's parameters (the preview generation only when
  \<^verbatim>\<open>preview_job_time_\<close> is set), the front ticket is popped, leaving \<open>queue\<close>, and the job
  is submitted to the pool with the method of the ticket's type.
\<close>

definition send_job ::
  "nat \<Rightarrow> RenderTicketPtr \<Rightarrow> RenderTicketPtr list \<Rightarrow> RenderBackend \<Rightarrow> RenderBackend" where
  "send_job i ticket queue st =
     (let w = worker (workers st ! i) in
      st\<lparr> workers := (workers st)[i := (workers st ! i)\<lparr>busy := True\<rparr>],
          render_workers := (render_workers st)(w :=
            \<lparr> worker_video_params = video_params st,
              worker_audio_params = audio_params st,
              worker_video_download_matrix = video_download_matrix st,
              worker_render_mode = render_mode st,
              worker_preview_generation =
                (if preview_job_time st \<noteq> 0
                 then map_option (\<lambda>v. (v, preview_job_time st)) (viewer_node st)
                 else worker_preview_generation (render_workers st w)),
              worker_has_copy_map = True \<rparr>),
          render_queue := queue,
          pool_jobs := pool_jobs st @
            [\<lparr> job_worker = w,
               job_method = ticket_type (tickets st ticket),
               job_ticket = ticket,
               job_viewer = copied_viewer_node st,
               job_time = ticket_time (tickets st ticket) \<rparr>] \<rparr>)"

text \<open>
  "Start popping jobs off the queue": the \<^verbatim>\<open>for\<close> loop over the worker indices. Each
  idle worker is sent the front ticket; the loop breaks when the queue has become empty.
  \<^verbatim>\<open>render_queue_.front()\<close> of an empty queue is \<open>Inl OutOfRange\<close>;
  \<^verbatim>\<open>viewer_node_->audio_playback_cache()\<close> without a viewer is \<open>Inl NullPointer\<close>.
\<close>

fun RunNextJob_loop :: "nat list \<Rightarrow> RenderBackend \<Rightarrow> error + RenderBackend" where
  "RunNextJob_loop [] st = Inr st"
| "RunNextJob_loop (i # rest) st =
     (if \<not> busy (workers st ! i) then
        (if preview_job_time st \<noteq> 0 \<and> viewer_node st = None then Inl NullPointer
         else
           (case render_queue st of
              [] \<Rightarrow> Inl OutOfRange
            | ticket # queue \<Rightarrow>
                (let st1 = send_job i ticket queue st
                 in if queue = [] then Inr st1 else RunNextJob_loop rest st1)))
      else RunNextJob_loop rest st)"

definition RunNextJob_dispatch :: "RenderBackend \<Rightarrow> error + RenderBackend" where
  "RunNextJob_dispatch st =
     (let st1 = allocate_workers st in RunNextJob_loop [0..<length (workers st1)] st1)"

definition RunNextJob :: "nat \<Rightarrow> RenderBackend \<Rightarrow> error + RenderBackend" where
  "RunNextJob fuel st =
     (if render_queue st = [] then Inr st
      else if \<not> video_is_valid (video_params st) \<or> \<not> audio_is_valid (audio_params st)
        then Inr st
      else if update_with_graph st \<and> graph_update_queue st \<noteq> [] then
        (if all_workers_available st then
           (case ProcessUpdateQueue fuel st of
              Inl e \<Rightarrow> Inl e
            | Inr st1 \<Rightarrow> RunNextJob_dispatch st1)
         else Inr st)
      else RunNextJob_dispatch st)"

text \<open>The loop of \<^verbatim>\<open>WorkerFinished\<close>: the first slot of the sending worker becomes idle.\<close>

fun set_worker_idle :: "RenderWorkerPtr \<Rightarrow> WorkerData list \<Rightarrow> WorkerData list" where
  "set_worker_idle sender [] = []"
| "set_worker_idle sender (d # ds) =
     (if worker d = sender then d\<lparr>busy := False\<rparr> # ds else d # set_worker_idle sender ds)"

definition WorkerFinished ::
  "nat \<Rightarrow> RenderWorkerPtr \<Rightarrow> RenderBackend \<Rightarrow> error + RenderBackend" where
  "WorkerFinished fuel sender st =
     (let st1 = st\<lparr>workers := set_worker_idle sender (workers st)\<rparr>
      in if viewer_node st1 \<noteq> None then RunNextJob fuel st1 else Inr st1)"

subsection \<open>SplitRangeIntoChunks\<close>

text \<open>
  The \<^verbatim>\<open>int\<close> of the source has 32 bits, and signed overflow is undefined in C++:
  \<open>int32 x\<close> is the value when it fits and \<open>Inl IntegerOverflow\<close> otherwise.
\<close>

definition int32 :: "int \<Rightarrow> error + int" where
  "int32 x = (if - (2 ^ 31) \<le> x \<and> x < 2 ^ 31 then Inr x else Inl IntegerOverflow)"

text \<open>
  A \<^verbatim>\<open>double\<close> is an IEEE 754 binary64 number, given here by the rational it denotes.
  A conversion to \<^verbatim>\<open>double\<close> and each arithmetic operation on doubles round the exact
  result to the nearest number with a significand of 53 bits, ties to the even
  significand. For \<open>x > 0\<close>, \<open>binade x\<close> is the exponent \<open>e\<close> with
  \<open>2 ^ e \<le> x < 2 ^ (e + 1)\<close>, and the doubles from \<open>2 ^ e\<close> to \<open>2 ^ (e + 1)\<close> are the
  multiples of \<open>ulp e = 2 ^ (e - 52)\<close>. Exponents are not bounded (no infinities and no
  subnormal numbers): the quotients of 64-bit integers that occur here lie between
  \<open>2 ^ - 63\<close> and \<open>2 ^ 63\<close>, far inside the range of normal doubles.
\<close>

type_synonym double = rat

definition round_half_even :: "rat \<Rightarrow> int" where
  "round_half_even x =
     (let f = \<lfloor>x\<rfloor>; d = x - of_int f in
      if d < 1 / 2 then f else if 1 / 2 < d then f + 1 else if even f then f else f + 1)"

definition binade :: "rat \<Rightarrow> int" where
  "binade x = (if 1 \<le> x then bitlen \<lfloor>x\<rfloor> - 1 else - bitlen (\<lceil>1 / x\<rceil> - 1))"

definition ulp :: "int \<Rightarrow> rat" where
  "ulp e = (if 52 \<le> e then 2 ^ nat (e - 52) else 1 / 2 ^ nat (52 - e))"

definition to_double :: "rat \<Rightarrow> double" where
  "to_double x =
     (if x = 0 then 0
      else let u = ulp (binade \<bar>x\<bar>) in of_int (round_half_even (x / u)) * u)"

definition double_divide :: "double \<Rightarrow> double \<Rightarrow> double" where
  "double_divide a b = to_double (a / b)"

text \<open>
  Modelled from the spec: \<^verbatim>\<open>rational::toDouble()\<close> is declared outside
  \<^verbatim>\<open>renderbackend.cpp\<close>, and the spec says of it no more than that a time is a rational
  number. It is taken as the division of the numerator by the denominator of the reduced
  fraction, each converted to \<^verbatim>\<open>double\<close>.
\<close>

definition toDouble :: "rat \<Rightarrow> double" where
  "toDouble x =
     (case quotient_of x of
        (numer, denom) \<Rightarrow> double_divide (to_double (of_int numer)) (to_double (of_int denom)))"

text \<open>
  \<^verbatim>\<open>r.in().toDouble() / static_cast<double>(chunk_size)\<close>, and the same for
  \<^verbatim>\<open>r.out()\<close>.
\<close>

definition double_quotient :: "rat \<Rightarrow> int \<Rightarrow> double" where
  "double_quotient x chunk_size = double_divide (toDouble x) (to_double (of_int chunk_size))"

text \<open>
  The \<^verbatim>\<open>for\<close> loop: \<open>i\<close> runs from \<^verbatim>\<open>start_time\<close> in steps of the chunk size while it is
  below \<^verbatim>\<open>end_time\<close>, and each round appends the range from \<^verbatim>\<open>qMax(r.in(), i)\<close> to
  \<^verbatim>\<open>qMin(r.out(), i + chunk_size)\<close>.
\<close>

function SplitRangeIntoChunks_loop ::
  "int \<Rightarrow> TimeRange \<Rightarrow> int \<Rightarrow> int \<Rightarrow> error + TimeRange list" where
  "SplitRangeIntoChunks_loop chunk_size r i end_time =
     (if i < end_time \<and> 0 < chunk_size then
        (case int32 (i + chunk_size) of
           Inl e \<Rightarrow> Inl e
         | Inr next_i \<Rightarrow>
             (case SplitRangeIntoChunks_loop chunk_size r next_i end_time of
                Inl e \<Rightarrow> Inl e
              | Inr split_ranges \<Rightarrow>
                  Inr (\<lparr> range_in = max (range_in r) (of_int i),
                         range_out = min (range_out r) (of_int next_i) \<rparr> # split_ranges)))
      else Inr [])"
  by pat_completeness auto
termination
proof (relation "measure (\<lambda>(chunk_size, r, i, end_time). nat (end_time - i))")
  show "wf (measure (\<lambda>(chunk_size, r, i, end_time). nat (end_time - i)))" by simp
next
  fix chunk_size :: int and r :: TimeRange and i end_time next_i :: int
  assume "i < end_time \<and> 0 < chunk_size" and "int32 (i + chunk_size) = Inr next_i"
  then show "((chunk_size, r, next_i, end_time), (chunk_size, r, i, end_time))
               \<in> measure (\<lambda>(chunk_size, r, i, end_time). nat (end_time - i))"
    by (auto simp: int32_def split: if_splits)
qed

declare SplitRangeIntoChunks_loop.simps [simp del]

text \<open>
  The source fixes \<^verbatim>\<open>const int chunk_size = 2\<close>. \<open>SplitRangeIntoChunks_with\<close> is the body
  of the function with the constant as an argument, for chunk sizes from 1 on (below 1
  the loop of the body would not advance). \<^verbatim>\<open>qFloor\<close> and \<^verbatim>\<open>qCeil\<close> return an \<^verbatim>\<open>int\<close>.
\<close>

definition SplitRangeIntoChunks_with :: "int \<Rightarrow> TimeRange \<Rightarrow> error + TimeRange list" where
  "SplitRangeIntoChunks_with chunk_size r =
     (if chunk_size < 1 then Inl OutOfFuel
      else
        (case int32 \<lfloor>double_quotient (range_in r) chunk_size\<rfloor> of
           Inl e \<Rightarrow> Inl e
         | Inr floor_in \<Rightarrow>
        (case int32 (floor_in * chunk_size) of
           Inl e \<Rightarrow> Inl e
         | Inr start_time \<Rightarrow>
        (case int32 \<lceil>double_quotient (range_out r) chunk_size\<rceil> of
           Inl e \<Rightarrow> Inl e
         | Inr ceil_out \<Rightarrow>
        (case int32 (ceil_out * chunk_size) of
           Inl e \<Rightarrow> Inl e
         | Inr end_time \<Rightarrow> SplitRangeIntoChunks_loop chunk_size r start_time end_time)))))"

definition SplitRangeIntoChunks :: "TimeRange \<Rightarrow> error + TimeRange list" where
  "SplitRangeIntoChunks r = SplitRangeIntoChunks_with 2 r"

section \<open>Sample graphs and states\<close>

text \<open>
  A small live graph used to run the operations: the viewer is node 1; node 2 has a plain
  input \<open>''blur''\<close> and an array input \<open>''clips''\<close> with two members; node 3 has the
  input \<open>''gain''\<close>. In \<open>live_graph\<close> node 2 feeds the viewer's texture input and node 3
  its samples input.
\<close>

definition sample_graph :: "NodeEdge list \<Rightarrow> NodeGraph" where
  "sample_graph es =
     \<lparr> node_inputs = (\<lambda>n.
          if n = 1 then [texture_input 1, samples_input 1]
          else if n = 2 then [NodeInput 2 ''blur'', NodeInput 2 ''clips'',
                              NodeInput 2 ''clips_0'', NodeInput 2 ''clips_1'']
          else if n = 3 then [NodeInput 3 ''gain'']
          else []),
       array_sub_params = (\<lambda>i.
          if i = NodeInput 2 ''clips''
          then Some [NodeInput 2 ''clips_0'', NodeInput 2 ''clips_1''] else None),
       input_values = (\<lambda>i. 0),
       track_type = (\<lambda>n. None),
       edges = es,
       next_node = 10 \<rparr>"

text \<open>The constructor: no viewer, no tracking of the graph, online mode, empty containers.\<close>

definition RenderBackend_init :: "NodeGraph \<Rightarrow> nat \<Rightarrow> RenderBackend" where
  "RenderBackend_init g max_threads =
     \<lparr> viewer_node = None,
       copied_viewer_node = None,
       update_with_graph = False,
       preview_job_time = 0,
       render_mode = kOnline,
       video_params = \<lparr> video_width = 0, video_height = 0, video_is_valid = False \<rparr>,
       audio_params = \<lparr> audio_sample_rate = 0, audio_is_valid = False \<rparr>,
       video_download_matrix = [],
       render_queue = [],
       graph_update_queue = [],
       copy_map = [],
       workers = [],
       pool_jobs = [],
       pool_max_thread_count = max_threads,
       tickets = (\<lambda>t. \<lparr> ticket_type = kTypeHash, ticket_time = Times [], cancelled = False \<rparr>),
       next_ticket = 0,
       render_workers = (\<lambda>w. new_RenderWorker),
       next_worker = 0,
       graph = g,
       queued_invocations = 0,
       graph_changed_connections = [],
       delete_later = [] \<rparr>"

definition live_graph :: NodeGraph where
  "live_graph = sample_graph [(NodeOutput 2 ''out'', texture_input 1),
                              (NodeOutput 3 ''out'', samples_input 1)]"

text \<open>A backend that tracks the graph, with valid parameters and a pool of two threads.\<close>

definition configured_backend :: RenderBackend where
  "configured_backend =
     SetAudioParams \<lparr> audio_sample_rate = 48000, audio_is_valid = True \<rparr>
       (SetVideoParams \<lparr> video_width = 1920, video_height = 1080, video_is_valid = True \<rparr>
          ((RenderBackend_init live_graph 2)\<lparr>update_with_graph := True\<rparr>))"

text \<open>The viewer (node 1) attached: nodes 1, 2 and 3 are copied to nodes 10, 11 and 12.\<close>

definition attached_backend :: RenderBackend where
  "attached_backend = projr (SetViewerNode 3 (Some 1) configured_backend)"

text \<open>The same without parameters set.\<close>

definition unconfigured_backend :: RenderBackend where
  "unconfigured_backend = projr (SetViewerNode 3 (Some 1) (RenderBackend_init live_graph 2))"

text \<open>Three tickets are submitted and the first is cancelled by its holder.\<close>

definition three_tickets_backend :: RenderBackend where
  "three_tickets_backend =
     snd (RenderAudio \<lparr> range_in = 0, range_out = 5 \<rparr>
       (snd (Hash [1 / 2, 3 / 2] (snd (RenderFrame 1 attached_backend)))))"

definition cancelled_ticket_backend :: RenderBackend where
  "cancelled_ticket_backend = Cancel 0 three_tickets_backend"

text \<open>
  After a dispatch both workers are busy and one ticket waits; then the input \<open>''blur''\<close>
  of the live node 2 changes.
\<close>

definition busy_backend :: RenderBackend where
  "busy_backend = projr (RunNextJob 3 three_tickets_backend)"

definition pending_update_backend :: RenderBackend where
  "pending_update_backend = projr (NodeGraphChanged (NodeInput 2 ''blur'') busy_backend)"


text \<open>
  The inputs \<open>''gain''\<close> and \<open>''blur''\<close> change, and then the editor connects the output
  of node 2 to the input \<open>''gain''\<close> of node 3.
\<close>

definition feeding_queued_backend :: RenderBackend where
  "feeding_queued_backend =
     (let st = projr (NodeGraphChanged (NodeInput 2 ''blur'')
                (projr (NodeGraphChanged (NodeInput 3 ''gain'') attached_backend)))
      in st\<lparr>graph := ConnectEdge (NodeOutput 2 ''out'') (NodeInput 3 ''gain'') (graph st)\<rparr>)"


text \<open>
  The editor disconnects node 2 from the viewer's texture input; the texture input and
  then the input \<open>''blur''\<close> of node 2 are reported as changed.
\<close>

definition disconnected_backend :: RenderBackend where
  "disconnected_backend =
     attached_backend\<lparr>graph :=
       DisconnectEdge (NodeOutput 2 ''out'', texture_input 1) (graph attached_backend)\<rparr>"

definition stale_queue_backend :: RenderBackend where
  "stale_queue_backend =
     projr (NodeGraphChanged (NodeInput 2 ''blur'')
       (projr (NodeGraphChanged (texture_input 1) disconnected_backend)))"

section \<open>Predicates used in the statements\<close>

text \<open>
  \<open>covered_by g a b\<close>: queueing \<open>a\<close> is pointless while \<open>b\<close> is queued, which is what the
  three early returns of the loop test (with \<open>a\<close> the source and \<open>b\<close> the queued input).
\<close>

definition covered_by :: "NodeGraph \<Rightarrow> NodeInput \<Rightarrow> NodeInput \<Rightarrow> bool" where
  "covered_by g a b =
     (a = b \<or> OutputsTo g (parentNode a) b True True
      \<or> (IsArray g b \<and> a \<in> set (sub_params g b)))"

text \<open>\<open>supersedes g s q\<close>: the test under which the loop removes the queued input \<open>q\<close>.\<close>

definition supersedes :: "NodeGraph \<Rightarrow> NodeInput \<Rightarrow> NodeInput \<Rightarrow> bool" where
  "supersedes g s q =
     (OutputsTo g (parentNode q) s True True \<or> (IsArray g s \<and> q \<in> set (sub_params g s)))"

definition no_redundant_pair :: "NodeGraph \<Rightarrow> NodeInput list \<Rightarrow> bool" where
  "no_redundant_pair g q =
     (distinct q \<and>
      (\<forall>a \<in> set q. \<forall>b \<in> set q. a \<noteq> b \<longrightarrow>
         \<not> OutputsTo g (parentNode a) b True True
         \<and> \<not> (IsArray g b \<and> a \<in> set (sub_params g b))))"

text \<open>
  A submission that is accepted returns a ticket of the requested type and payload, not
  cancelled, at the back of the render queue, which is one longer, and posts one call of
  \<^verbatim>\<open>RunNextJob\<close>.
\<close>

definition submission_accepted ::
  "TicketType \<Rightarrow> TicketTime \<Rightarrow> RenderBackend \<Rightarrow> RenderTicketPtr option \<times> RenderBackend \<Rightarrow> bool" where
  "submission_accepted ty time st res =
     (\<exists>ticket st'. res = (Some ticket, st')
        \<and> ticket_type (tickets st' ticket) = ty
        \<and> ticket_time (tickets st' ticket) = time
        \<and> \<not> cancelled (tickets st' ticket)
        \<and> render_queue st' = render_queue st @ [ticket]
        \<and> length (render_queue st') = length (render_queue st) + 1
        \<and> queued_invocations st' = Suc (queued_invocations st))"

text \<open>The number of worker slots that are not busy.\<close>

definition idle_workers :: "RenderBackend \<Rightarrow> nat" where
  "idle_workers st = length (filter (\<lambda>d. \<not> busy d) (workers st))"

text \<open>
  The contract between the editor and \<^verbatim>\<open>NodeGraphChanged\<close>: an input whose node has no
  copy is reported only while a queued input is pending that the node outputs to, so
  that copying the queued input's connections will copy the node.
\<close>

definition notification_contract :: "RenderBackend \<Rightarrow> NodeInput \<Rightarrow> bool" where
  "notification_contract st source =
     (map_of (copy_map st) (parentNode source) = None \<longrightarrow>
        (\<exists>q \<in> set (graph_update_queue st). OutputsTo (graph st) (parentNode source) q True True))"

text \<open>
  \<open>chunks_partition chunk_size r chunks\<close>: the chunks split the range \<open>r\<close>. An empty list
  only for an empty range; otherwise the first chunk starts where the range starts and
  the last ends where it ends; each chunk ends where the next begins, at a multiple of
  the chunk size; each chunk lies inside the range, is a range itself and is no longer
  than the chunk size.
\<close>

definition chunks_partition :: "int \<Rightarrow> TimeRange \<Rightarrow> TimeRange list \<Rightarrow> bool" where
  "chunks_partition chunk_size r chunks =
     ((chunks = [] \<longrightarrow> range_in r = range_out r)
      \<and> (chunks \<noteq> [] \<longrightarrow>
            range_in (hd chunks) = range_in r \<and> range_out (last chunks) = range_out r)
      \<and> (\<forall>k. Suc k < length chunks \<longrightarrow>
            range_out (chunks ! k) = range_in (chunks ! Suc k)
            \<and> (\<exists>m::int. range_out (chunks ! k) = of_int (m * chunk_size)))
      \<and> (\<forall>c \<in> set chunks.
            range_in r \<le> range_in c \<and> range_in c \<le> range_out c
            \<and> range_out c \<le> range_out r
            \<and> range_out c - range_in c \<le> of_int chunk_size))"

section \<open>Properties\<close>

subsection \<open>What the copying leaves unchanged\<close>

lemma only_snapshot_changed_refl: "only_snapshot_changed st st"
  by (simp add: only_snapshot_changed_def)

lemma only_snapshot_changed_trans:
  "only_snapshot_changed a b \<Longrightarrow> only_snapshot_changed b c \<Longrightarrow> only_snapshot_changed a c"
  by (simp add: only_snapshot_changed_def)

lemma only_snapshot_changed_update:
  "only_snapshot_changed st (st'\<lparr>graph := g\<rparr>) = only_snapshot_changed st st'"
  "only_snapshot_changed (st\<lparr>graph := g\<rparr>) st' = only_snapshot_changed st st'"
  "only_snapshot_changed st (st'\<lparr>copy_map := m\<rparr>) = only_snapshot_changed st st'"
  "only_snapshot_changed (st\<lparr>copy_map := m\<rparr>) st' = only_snapshot_changed st st'"
  "only_snapshot_changed st (st'\<lparr>delete_later := dl\<rparr>) = only_snapshot_changed st st'"
  "only_snapshot_changed (st\<lparr>delete_later := dl\<rparr>) st' = only_snapshot_changed st st'"
  by (simp_all add: only_snapshot_changed_def)

lemma copy_of_node_frame:
  "copy_of_node src_node st = (dn, st1) \<Longrightarrow> only_snapshot_changed st st1"
  by (auto simp: copy_of_node_def Let_def only_snapshot_changed_update only_snapshot_changed_refl
           split: option.splits prod.splits if_splits)

lemma CopyNodeConnections_frame:
  "\<And>d st'. CopyNodeConnections k n st = Inr (d, st') \<Longrightarrow> only_snapshot_changed st st'"
  "\<And>st'. CopyNodeMakeConnection k a b st = Inr st' \<Longrightarrow> only_snapshot_changed st st'"
  "\<And>st'. CopyNodeConnections_loop k as bs st = Inr st' \<Longrightarrow> only_snapshot_changed st st'"
proof (induction k n st and k a b st and k as bs st
       rule: CopyNodeConnections_CopyNodeMakeConnection_CopyNodeConnections_loop.induct)
  case (1 src_node st)
  then show ?case by simp
next
  case (2 k src_node st)
  obtain dn st1 where l: "copy_of_node src_node st = (dn, st1)"
    by (cases "copy_of_node src_node st")
  from 2(2) l obtain r: "CopyNodeConnections_loop k
        (GetInputsIncludingArrays (CopyInputs src_node dn (graph st1)) src_node)
        (GetInputsIncludingArrays (CopyInputs src_node dn (graph st1)) dn)
        (st1\<lparr>graph := CopyInputs src_node dn (graph st1)\<rparr>) = Inr st'"
    by (auto split: sum.splits)
  from 2(1) [OF l [symmetric] r] have "only_snapshot_changed st1 st'"
    by (simp add: only_snapshot_changed_update)
  moreover from l have "only_snapshot_changed st st1"
    by (rule copy_of_node_frame)
  ultimately show ?case by (blast intro: only_snapshot_changed_trans)
next
  case (3 k src_input dst_input st)
  then show ?case
    by (auto simp: only_snapshot_changed_update only_snapshot_changed_refl split: option.splits prod.splits sum.splits)
next
  case (4 k dst_node_inputs st)
  then show ?case by (simp add: only_snapshot_changed_refl)
next
  case (5 k src_input src_rest st)
  then show ?case by simp
next
  case (6 k src_input src_rest dst_input dst_rest st)
  then show ?case
    by (auto split: sum.splits intro: only_snapshot_changed_trans)
qed

lemma remove_old_dependencies_frame:
  "remove_old_dependencies deps st = Inr st' \<Longrightarrow> only_snapshot_changed st st'"
proof (induction deps arbitrary: st)
  case Nil
  then show ?case by (simp add: only_snapshot_changed_refl)
next
  case (Cons i deps)
  then show ?case
    by (fastforce simp: only_snapshot_changed_update split: option.splits)
qed

lemma CopyNodeInputValue_connections_frame:
  assumes "CopyNodeInputValue_connections k input our_copy st = Inr st'"
  shows "only_snapshot_changed st st'"
proof (cases "is_connected (graph st) input \<or> is_connected (graph st) our_copy")
  case False
  with assms show ?thesis
    by (simp add: CopyNodeInputValue_connections_def only_snapshot_changed_refl)
next
  case True
  with assms obtain st1 where
    r: "remove_old_dependencies (GetExclusiveDependencies (graph st) our_copy) st = Inr st1"
    and c: "CopyNodeMakeConnection k input our_copy
              (st1\<lparr>graph := disconnect_all_edges our_copy (graph st1)\<rparr>) = Inr st'"
    by (auto simp: CopyNodeInputValue_connections_def split: sum.splits)
  from CopyNodeConnections_frame(2) [OF c]
  have "only_snapshot_changed st1 st'" by (simp add: only_snapshot_changed_update)
  with remove_old_dependencies_frame [OF r] show ?thesis
    by (rule only_snapshot_changed_trans)
qed

lemma CopyNodeInputValue_frame:
  "\<And>st'. CopyNodeInputValue k i st = Inr st' \<Longrightarrow> only_snapshot_changed st st'"
  "\<And>st'. CopyNodeInputValue_members k ms st = Inr st' \<Longrightarrow> only_snapshot_changed st st'"
proof (induction k i st and k ms st rule: CopyNodeInputValue_CopyNodeInputValue_members.induct)
  case (1 input st)
  then show ?case by simp
next
  case (2 k input st)
  from 2(2) obtain c our_copy st1 where
    c: "map_of (copy_map st) (parentNode input) = Some c"
    and oc: "GetInputWithID (graph st) c (input_id input) = Some our_copy"
    and conn: "CopyNodeInputValue_connections k input our_copy
                 (st\<lparr>graph := CopyValues input our_copy (graph st)\<rparr>) = Inr st1"
    and rest: "(if IsArray (graph st1) input
                then CopyNodeInputValue_members k (sub_params (graph st1) input) st1
                else Inr st1) = Inr st'"
    by (auto split: option.splits sum.splits)
  from CopyNodeInputValue_connections_frame [OF conn]
  have f1: "only_snapshot_changed st st1" by (simp add: only_snapshot_changed_update)
  have f2: "only_snapshot_changed st1 st'"
  proof (cases "IsArray (graph st1) input")
    case True
    with rest have "CopyNodeInputValue_members k (sub_params (graph st1) input) st1 = Inr st'"
      by simp
    from 2(1) [OF c oc conn True this] show ?thesis .
  next
    case False
    with rest show ?thesis by (simp add: only_snapshot_changed_refl)
  qed
  from f1 f2 show ?case by (rule only_snapshot_changed_trans)
next
  case (3 k st)
  then show ?case by (simp add: only_snapshot_changed_refl)
next
  case (4 k i members st)
  then show ?case
    by (auto split: sum.splits intro: only_snapshot_changed_trans)
qed

text \<open>The loop of \<^verbatim>\<open>ProcessUpdateQueue\<close> ends: each round leaves a shorter queue.\<close>

termination ProcessUpdateQueue
proof (relation "measure (\<lambda>(fuel, st). length (graph_update_queue st))")
  show "wf (measure (\<lambda>(fuel, st). length (graph_update_queue st)))" by simp
next
  fix fuel st i rest st1
  assume q: "graph_update_queue st = i # rest"
    and c: "CopyNodeInputValue fuel i (st\<lparr>graph_update_queue := rest\<rparr>) = Inr st1"
  from CopyNodeInputValue_frame(1) [OF c] have "graph_update_queue st1 = rest"
    by (simp add: only_snapshot_changed_def)
  with q show "((fuel, st1), (fuel, st)) \<in> measure (\<lambda>(fuel, st). length (graph_update_queue st))"
    by simp
qed

declare ProcessUpdateQueue.simps [simp del]

subsection \<open>The pending-update queue holds no redundant pair\<close>

lemma NodeGraphChanged_loop_Cons:
  "NodeGraphChanged_loop g s kept (x # q) =
     (if covered_by g s x then kept @ x # q
      else if supersedes g s x then NodeGraphChanged_loop g s kept q
      else NodeGraphChanged_loop g s (kept @ [x]) q)"
  by (auto simp: covered_by_def supersedes_def)

text \<open>
  The loop in closed form. If some queued input covers the source, the loop returns at
  the first such entry, having removed the superseded entries before it; otherwise it
  removes every superseded entry and appends the source.
\<close>

lemma NodeGraphChanged_loop_eq:
  "NodeGraphChanged_loop g s kept q =
     (if \<exists>x \<in> set q. covered_by g s x
      then kept @ filter (\<lambda>x. \<not> supersedes g s x) (takeWhile (\<lambda>x. \<not> covered_by g s x) q)
             @ dropWhile (\<lambda>x. \<not> covered_by g s x) q
      else kept @ filter (\<lambda>x. \<not> supersedes g s x) q @ [s])"
proof (induction q arbitrary: kept)
  case Nil
  show ?case by simp
next
  case (Cons x q)
  show ?case
  proof (cases "covered_by g s x")
    case True
    then show ?thesis by (simp only: NodeGraphChanged_loop_Cons) simp
  next
    case nc: False
    show ?thesis
    proof (cases "supersedes g s x")
      case True
      with nc show ?thesis
        by (simp only: NodeGraphChanged_loop_Cons Cons.IH [of kept]) simp
    next
      case False
      with nc show ?thesis
        by (simp only: NodeGraphChanged_loop_Cons Cons.IH [of "kept @ [x]"]) simp
    qed
  qed
qed

lemma no_redundant_pair_subset:
  assumes "no_redundant_pair g q" and "distinct r" and "set r \<subseteq> set q"
  shows "no_redundant_pair g r"
  using assms unfolding no_redundant_pair_def by blast

lemma distinct_filter_take_drop:
  assumes "distinct q"
  shows "distinct (filter P (takeWhile Q q) @ dropWhile Q q)"
proof -
  have "distinct (takeWhile Q q @ dropWhile Q q)" using assms by simp
  then show ?thesis
    by (auto simp del: takeWhile_dropWhile_id)
qed

lemma no_redundant_pair_loop:
  assumes "no_redundant_pair g q"
  shows "no_redundant_pair g (NodeGraphChanged_loop g s [] q)"
proof (cases "\<exists>x \<in> set q. covered_by g s x")
  case True
  have d: "distinct q" using assms by (simp add: no_redundant_pair_def)
  have sub: "set (filter (\<lambda>x. \<not> supersedes g s x) (takeWhile (\<lambda>x. \<not> covered_by g s x) q)
             @ dropWhile (\<lambda>x. \<not> covered_by g s x) q) \<subseteq> set q"
    by (auto dest: set_takeWhileD set_dropWhileD)
  show ?thesis
    using True no_redundant_pair_subset [OF assms distinct_filter_take_drop [OF d] sub]
    by (simp add: NodeGraphChanged_loop_eq)
next
  case False
  then have eq: "NodeGraphChanged_loop g s [] q = filter (\<lambda>x. \<not> supersedes g s x) q @ [s]"
    by (simp add: NodeGraphChanged_loop_eq)
  show ?thesis
    unfolding eq using assms False
    unfolding no_redundant_pair_def covered_by_def supersedes_def
    by auto
qed

lemma NodeGraphChanged_Inr:
  assumes "NodeGraphChanged source st = Inr st'"
  shows "st' = st \<or>
         (map_of (copy_map st) (parentNode source) \<noteq> None \<and>
          st' = st\<lparr>graph_update_queue :=
                     NodeGraphChanged_loop (graph st) source [] (graph_update_queue st)\<rparr>)"
  using assms by (auto simp: NodeGraphChanged_def split: option.splits if_splits)

text \<open>
  C3, as stated, fails: the queue need not be free of redundant pairs after an enqueue,
  because the live graph is edited between the enqueues. The inputs \<open>''gain''\<close> of node 3
  and \<open>''blur''\<close> of node 2 are queued while neither node outputs to the other's input.
  The editor then connects the output of node 2 to \<open>''gain''\<close>, and \<open>''gain''\<close> is reported
  again: \<^verbatim>\<open>NodeGraphChanged\<close> finds it queued and returns. The queue still holds
  \<open>''blur''\<close>, whose node now outputs to the queued \<open>''gain''\<close>.
\<close>

theorem NodeGraphChanged_redundant_pair_counterexample:
  "no_redundant_pair (graph attached_backend) (graph_update_queue feeding_queued_backend)
   \<and> graph_update_queue feeding_queued_backend = [NodeInput 3 ''gain'', NodeInput 2 ''blur'']
   \<and> map_sum id graph_update_queue
        (NodeGraphChanged (NodeInput 3 ''gain'') feeding_queued_backend)
        = Inr [NodeInput 3 ''gain'', NodeInput 2 ''blur'']
   \<and> OutputsTo (graph feeding_queued_backend) (parentNode (NodeInput 2 ''blur''))
        (NodeInput 3 ''gain'') True True
   \<and> map_sum id (\<lambda>st'. no_redundant_pair (graph st') (graph_update_queue st'))
        (NodeGraphChanged (NodeInput 3 ''gain'') feeding_queued_backend) = Inr False"
  by code_simp

text \<open>
  C3, amended. An enqueue adds no redundant pair, with respect to the graph as it is at
  the call. \<^verbatim>\<open>NodeGraphChanged\<close> leaves the graph as it is. If, before it, no queued input
  occurs twice, no queued input's owning node outputs to another queued input and no
  queued input is a member of a queued array, then the same holds after it. In every
  case, two different inputs that are queued after the call, one of which supersedes the
  other, were both queued before the call, and a queue without repetition stays without
  repetition. When the source's node has a copy and no queued input covers the source,
  the queue afterwards is the old queue without the entries that the source supersedes
  (those whose node outputs to the source, and the members of the source array),
  followed by the source.
\<close>

theorem NodeGraphChanged_no_redundant_pair:
  assumes "NodeGraphChanged source st = Inr st'"
  shows "graph st' = graph st
         \<and> (no_redundant_pair (graph st) (graph_update_queue st)
              \<longrightarrow> no_redundant_pair (graph st') (graph_update_queue st'))
         \<and> (\<forall>a \<in> set (graph_update_queue st'). \<forall>b \<in> set (graph_update_queue st').
               a \<noteq> b \<and> supersedes (graph st) b a
               \<longrightarrow> a \<in> set (graph_update_queue st) \<and> b \<in> set (graph_update_queue st))
         \<and> (distinct (graph_update_queue st) \<longrightarrow> distinct (graph_update_queue st'))
         \<and> (map_of (copy_map st) (parentNode source) \<noteq> None \<and>
             (\<forall>q \<in> set (graph_update_queue st). \<not> covered_by (graph st) source q) \<longrightarrow>
               graph_update_queue st' =
                 filter (\<lambda>q. \<not> supersedes (graph st) source q) (graph_update_queue st)
                   @ [source])"
proof -
  let ?g = "graph st" and ?q = "graph_update_queue st"
  from NodeGraphChanged_Inr [OF assms]
  have gr: "graph st' = graph st" by auto
  from NodeGraphChanged_Inr [OF assms]
  have q': "graph_update_queue st' = ?q
            \<or> graph_update_queue st' = NodeGraphChanged_loop ?g source [] ?q"
    by auto
  have inv: "no_redundant_pair (graph st') (graph_update_queue st')"
    if "no_redundant_pair ?g ?q"
    using q' gr that no_redundant_pair_loop [OF that, of source] by auto
  have old: "a \<in> set ?q \<and> b \<in> set ?q"
    if "a \<in> set (NodeGraphChanged_loop ?g source [] ?q)"
      and "b \<in> set (NodeGraphChanged_loop ?g source [] ?q)"
      and "a \<noteq> b" and "supersedes ?g b a" for a b
  proof (cases "\<exists>x \<in> set ?q. covered_by ?g source x")
    case True
    with that(1,2) show ?thesis
      by (auto simp: NodeGraphChanged_loop_eq dest: set_takeWhileD set_dropWhileD)
  next
    case False
    then have eq: "NodeGraphChanged_loop ?g source [] ?q =
                     filter (\<lambda>x. \<not> supersedes ?g source x) ?q @ [source]"
      by (simp add: NodeGraphChanged_loop_eq)
    have na: "a \<noteq> source"
    proof
      assume a: "a = source"
      with that(2,3) eq have "b \<in> set ?q" by auto
      with False have "\<not> covered_by ?g source b" by blast
      with that(4) a show False by (simp add: covered_by_def supersedes_def)
    qed
    have nb: "b \<noteq> source"
    proof
      assume b: "b = source"
      with that(1,3) eq have "\<not> supersedes ?g source a" by auto
      with that(4) b show False by simp
    qed
    from na nb that(1,2) eq show ?thesis by auto
  qed
  have pairs: "\<forall>a \<in> set (graph_update_queue st'). \<forall>b \<in> set (graph_update_queue st').
               a \<noteq> b \<and> supersedes ?g b a \<longrightarrow> a \<in> set ?q \<and> b \<in> set ?q"
    using q' old by auto
  have dl: "distinct (NodeGraphChanged_loop ?g source [] ?q)" if d: "distinct ?q"
  proof (cases "\<exists>x \<in> set ?q. covered_by ?g source x")
    case True
    with distinct_filter_take_drop [OF d] show ?thesis
      by (simp add: NodeGraphChanged_loop_eq)
  next
    case False
    then have "source \<notin> set ?q" by (auto simp: covered_by_def)
    with False d show ?thesis by (simp add: NodeGraphChanged_loop_eq)
  qed
  have dist: "distinct (graph_update_queue st')" if "distinct ?q"
    using q' dl [OF that] that by auto
  have app: "graph_update_queue st' =
      filter (\<lambda>q. \<not> supersedes ?g source q) ?q @ [source]"
    if "map_of (copy_map st) (parentNode source) \<noteq> None"
      and "\<forall>q \<in> set ?q. \<not> covered_by ?g source q"
    using that assms
    by (auto simp: NodeGraphChanged_def NodeGraphChanged_loop_eq split: option.splits)
  from gr inv pairs dist app show ?thesis by blast
qed

text \<open>
  The theorem at work: node 2 has a copy, its member input \<open>''clips_0''\<close> and the
  unrelated input \<open>''gain''\<close> of node 3 are queued, and the array \<open>''clips''\<close> changes.
  The member is dropped and the array is appended.
\<close>

theorem NodeGraphChanged_no_redundant_pair_witness:
  "no_redundant_pair (sample_graph [])
     (graph_update_queue
        ((RenderBackend_init (sample_graph []) 2)
           \<lparr>graph_update_queue := [NodeInput 2 ''clips_0'', NodeInput 3 ''gain''],
            copy_map := [(2, 12), (3, 13)]\<rparr>))
   \<and> (\<exists>st'. NodeGraphChanged (NodeInput 2 ''clips'')
          ((RenderBackend_init (sample_graph []) 2)
             \<lparr>graph_update_queue := [NodeInput 2 ''clips_0'', NodeInput 3 ''gain''],
              copy_map := [(2, 12), (3, 13)]\<rparr>) = Inr st'
        \<and> no_redundant_pair (graph st') (graph_update_queue st')
        \<and> graph_update_queue st' = [NodeInput 3 ''gain'', NodeInput 2 ''clips''])"
proof -
  let ?st = "(RenderBackend_init (sample_graph []) 2)
           \<lparr>graph_update_queue := [NodeInput 2 ''clips_0'', NodeInput 3 ''gain''],
            copy_map := [(2, 12), (3, 13)]\<rparr>"
  let ?st' = "?st\<lparr>graph_update_queue := [NodeInput 3 ''gain'', NodeInput 2 ''clips'']\<rparr>"
  have out: "\<And>n i. \<not> OutputsTo (sample_graph []) n i True True"
    by (simp add: OutputsTo_def sample_graph_def)
  have pre: "no_redundant_pair (graph ?st) (graph_update_queue ?st)"
    by (simp add: no_redundant_pair_def RenderBackend_init_def out)
       (simp add: sample_graph_def IsArray_def)
  have run: "NodeGraphChanged (NodeInput 2 ''clips'') ?st = Inr ?st'"
    by (simp add: NodeGraphChanged_def RenderBackend_init_def out)
       (simp add: sample_graph_def IsArray_def sub_params_def)
  from NodeGraphChanged_no_redundant_pair [OF run] pre
  have "no_redundant_pair (graph ?st') (graph_update_queue ?st')" by blast
  with pre run show ?thesis
    by (simp add: RenderBackend_init_def)
qed

subsection \<open>Submissions\<close>

lemma submit_ticket_None:
  "viewer_node st = None \<Longrightarrow> submit_ticket ty time st = (None, st)"
  by (simp add: submit_ticket_def)

lemma submit_ticket_Some:
  "viewer_node st \<noteq> None \<Longrightarrow> submission_accepted ty time st (submit_ticket ty time st)"
  by (auto simp: submit_ticket_def submission_accepted_def make_RenderTicket_def)

text \<open>
  C7. For each of \<^verbatim>\<open>Hash\<close>, \<^verbatim>\<open>RenderFrame\<close> and \<^verbatim>\<open>RenderAudio\<close>: without a viewer node
  the call returns null and the state, so the render queue, is unchanged; with a viewer
  node it returns a new ticket of the matching type, the render queue grows by exactly
  that ticket at its back, and one call of \<^verbatim>\<open>RunNextJob\<close> is posted.
\<close>

theorem submission_needs_subject:
  "(viewer_node st = None \<longrightarrow>
      Hash ts st = (None, st) \<and> RenderFrame t st = (None, st) \<and> RenderAudio r st = (None, st))
   \<and> (viewer_node st \<noteq> None \<longrightarrow>
      submission_accepted kTypeHash (Times ts) st (Hash ts st)
      \<and> submission_accepted kTypeVideo (Time t) st (RenderFrame t st)
      \<and> submission_accepted kTypeAudio (Range r) st (RenderAudio r st))"
  by (simp add: Hash_def RenderFrame_def RenderAudio_def submit_ticket_None submit_ticket_Some)

theorem submission_needs_subject_witness:
  "viewer_node attached_backend \<noteq> None
   \<and> submission_accepted kTypeVideo (Time 1) attached_backend (RenderFrame 1 attached_backend)
   \<and> viewer_node (RenderBackend_init live_graph 2) = None
   \<and> Hash [1 / 2, 3 / 2] (RenderBackend_init live_graph 2)
       = (None, RenderBackend_init live_graph 2)"
proof -
  have a: "viewer_node attached_backend \<noteq> None" by code_simp
  have b: "viewer_node (RenderBackend_init live_graph 2) = None"
    by (simp add: RenderBackend_init_def)
  from a b submission_needs_subject [of attached_backend "[]" 1 "\<lparr>range_in = 0, range_out = 1\<rparr>"]
    submission_needs_subject [of "RenderBackend_init live_graph 2" "[1 / 2, 3 / 2]" 1
      "\<lparr>range_in = 0, range_out = 1\<rparr>"]
  show ?thesis by blast
qed

text \<open>
  C6, as stated, fails: the three submissions do not look at the parameters. With a
  viewer attached and neither parameter set valid, \<^verbatim>\<open>RenderFrame\<close> returns ticket 0 and
  the render queue, empty before, holds it.
\<close>

theorem submission_invalid_params_counterexample:
  "\<not> video_is_valid (video_params unconfigured_backend)
   \<and> \<not> audio_is_valid (audio_params unconfigured_backend)
   \<and> render_queue unconfigured_backend = []
   \<and> fst (RenderFrame 1 unconfigured_backend) = Some 0
   \<and> render_queue (snd (RenderFrame 1 unconfigured_backend)) = [0]"
  by code_simp

text \<open>
  C6, amended. While the video or audio parameters are invalid, \<^verbatim>\<open>RunNextJob\<close> returns
  without changing anything. The submissions return null exactly when no viewer node is
  attached; with one attached they create the ticket and append it to the render queue
  whatever the parameters are, and the dispatch that follows leaves it queued.
\<close>

theorem invalid_params_stop_dispatch_only:
  assumes "\<not> video_is_valid (video_params st) \<or> \<not> audio_is_valid (audio_params st)"
  shows "RunNextJob fuel st = Inr st
       \<and> (viewer_node st = None \<longrightarrow>
            fst (Hash ts st) = None \<and> fst (RenderFrame t st) = None
            \<and> fst (RenderAudio r st) = None)
       \<and> (viewer_node st \<noteq> None \<longrightarrow>
            fst (Hash ts st) = Some (next_ticket st)
            \<and> fst (RenderFrame t st) = Some (next_ticket st)
            \<and> fst (RenderAudio r st) = Some (next_ticket st)
            \<and> render_queue (snd (Hash ts st)) = render_queue st @ [next_ticket st]
            \<and> render_queue (snd (RenderFrame t st)) = render_queue st @ [next_ticket st]
            \<and> render_queue (snd (RenderAudio r st)) = render_queue st @ [next_ticket st]
            \<and> RunNextJob fuel (snd (Hash ts st)) = Inr (snd (Hash ts st))
            \<and> RunNextJob fuel (snd (RenderFrame t st)) = Inr (snd (RenderFrame t st))
            \<and> RunNextJob fuel (snd (RenderAudio r st)) = Inr (snd (RenderAudio r st)))"
proof -
  have a: "RunNextJob fuel st = Inr st"
    using assms by (auto simp: RunNextJob_def)
  have b: "fst (submit_ticket ty time st) = None" if "viewer_node st = None" for ty time
    using that by (simp add: submit_ticket_def)
  have c: "fst (submit_ticket ty time st) = Some (next_ticket st)
         \<and> render_queue (snd (submit_ticket ty time st)) = render_queue st @ [next_ticket st]
         \<and> RunNextJob fuel (snd (submit_ticket ty time st)) = Inr (snd (submit_ticket ty time st))"
    if "viewer_node st \<noteq> None" for ty time
    using that assms
    by (auto simp: submit_ticket_def make_RenderTicket_def RunNextJob_def)
  from a b c show ?thesis
    by (simp add: Hash_def RenderFrame_def RenderAudio_def)
qed

theorem invalid_params_stop_dispatch_only_witness:
  "\<not> video_is_valid (video_params unconfigured_backend)
   \<and> viewer_node unconfigured_backend \<noteq> None
   \<and> RunNextJob 3 unconfigured_backend = Inr unconfigured_backend
   \<and> fst (RenderFrame 1 unconfigured_backend) = Some (next_ticket unconfigured_backend)
   \<and> RunNextJob 3 (snd (RenderFrame 1 unconfigured_backend))
        = Inr (snd (RenderFrame 1 unconfigured_backend))"
proof -
  have n: "\<not> video_is_valid (video_params unconfigured_backend)" by code_simp
  then have h: "\<not> video_is_valid (video_params unconfigured_backend)
      \<or> \<not> audio_is_valid (audio_params unconfigured_backend)" by simp
  have v: "viewer_node unconfigured_backend \<noteq> None" by code_simp
  from invalid_params_stop_dispatch_only [OF h, of 3 "[]" 1 "\<lparr>range_in = 0, range_out = 1\<rparr>"] n v
  show ?thesis by blast
qed

subsection \<open>SetViewerNode\<close>

text \<open>
  C10. \<^verbatim>\<open>SetViewerNode\<close> with the viewer node that is already set (null included)
  returns at once: the whole state is unchanged, so no ticket is cancelled, the render
  queue, the copy map, the copied nodes and the update queue are as before, and nothing
  is copied.
\<close>

theorem SetViewerNode_same_viewer:
  "SetViewerNode fuel (viewer_node st) st = Inr st"
  by (simp add: SetViewerNode_def)

theorem SetViewerNode_same_viewer_witness:
  "viewer_node attached_backend = Some 1
   \<and> SetViewerNode 3 (Some 1) attached_backend = Inr attached_backend
   \<and> viewer_node (RenderBackend_init live_graph 2) = None
   \<and> SetViewerNode 3 None (RenderBackend_init live_graph 2) = Inr (RenderBackend_init live_graph 2)"
proof -
  have a: "viewer_node attached_backend = Some 1" by code_simp
  have b: "viewer_node (RenderBackend_init live_graph 2) = None"
    by (simp add: RenderBackend_init_def)
  from SetViewerNode_same_viewer [of 3 attached_backend]
    SetViewerNode_same_viewer [of 3 "RenderBackend_init live_graph 2"] a b
  show ?thesis by simp
qed

lemma fold_Cancel_tickets:
  "tickets (fold Cancel q st) t =
     (if t \<in> set q then (tickets st t)\<lparr>cancelled := True\<rparr> else tickets st t)"
  by (induction q arbitrary: st) (auto simp: Cancel_def)

lemma fold_Cancel_fields:
  "render_queue (fold Cancel q st) = render_queue st"
  "copy_map (fold Cancel q st) = copy_map st"
  "delete_later (fold Cancel q st) = delete_later st"
  "graph_changed_connections (fold Cancel q st) = graph_changed_connections st"
  "viewer_node (fold Cancel q st) = viewer_node st"
  "pool_jobs (fold Cancel q st) = pool_jobs st"
  by (induction q arbitrary: st) (auto simp: Cancel_def)

text \<open>
  C5. \<^verbatim>\<open>SetViewerNode(nullptr)\<close> on a backend with a viewer node returns, and afterwards:
  no viewer node is set, the render queue is empty, every ticket that was in it is
  cancelled, every node of the copy map has been handed to \<^verbatim>\<open>deleteLater()\<close>, the copy
  map and the update queue are empty, the thread pool holds no job, and the old viewer's
  change signal is no longer connected.
\<close>

theorem SetViewerNode_detach:
  assumes "viewer_node st = Some old"
  shows "\<exists>st'. SetViewerNode fuel None st = Inr st'
           \<and> viewer_node st' = None
           \<and> render_queue st' = []
           \<and> (\<forall>t \<in> set (render_queue st). cancelled (tickets st' t))
           \<and> set (map snd (copy_map st)) \<subseteq> set (delete_later st')
           \<and> copy_map st' = []
           \<and> copied_viewer_node st' = None
           \<and> graph_update_queue st' = []
           \<and> pool_jobs st' = []
           \<and> old \<notin> set (graph_changed_connections st')"
  using assms
  by (simp add: SetViewerNode_def Let_def fold_Cancel_tickets fold_Cancel_fields)

theorem SetViewerNode_detach_witness:
  "viewer_node pending_update_backend = Some 1
   \<and> render_queue pending_update_backend = [2]
   \<and> copy_map pending_update_backend = [(1, 10), (2, 11), (3, 12)]
   \<and> graph_changed_connections pending_update_backend = [1]
   \<and> (\<exists>st'. SetViewerNode 3 None pending_update_backend = Inr st'
         \<and> viewer_node st' = None
         \<and> render_queue st' = []
         \<and> cancelled (tickets st' 2)
         \<and> {10, 11, 12} \<subseteq> set (delete_later st')
         \<and> copy_map st' = []
         \<and> graph_update_queue st' = []
         \<and> pool_jobs st' = []
         \<and> 1 \<notin> set (graph_changed_connections st'))"
proof -
  have v: "viewer_node pending_update_backend = Some 1" by code_simp
  have q: "render_queue pending_update_backend = [2]" by code_simp
  have m: "copy_map pending_update_backend = [(1, 10), (2, 11), (3, 12)]" by code_simp
  have c: "graph_changed_connections pending_update_backend = [1]" by code_simp
  from SetViewerNode_detach [OF v, of 3] obtain st' where
    "SetViewerNode 3 None pending_update_backend = Inr st'"
    "viewer_node st' = None" "render_queue st' = []"
    "\<forall>t \<in> set (render_queue pending_update_backend). cancelled (tickets st' t)"
    "set (map snd (copy_map pending_update_backend)) \<subseteq> set (delete_later st')"
    "copy_map st' = []" "graph_update_queue st' = []" "pool_jobs st' = []"
    "1 \<notin> set (graph_changed_connections st')"
    by blast
  with v q m c show ?thesis by auto
qed

subsection \<open>RunNextJob\<close>

lemma ProcessUpdateQueue_Inr:
  "ProcessUpdateQueue fuel st = Inr st' \<Longrightarrow>
     only_snapshot_changed (st\<lparr>graph_update_queue := []\<rparr>) st'"
proof (induction fuel st rule: ProcessUpdateQueue.induct)
  case (1 fuel st)
  show ?case
  proof (cases "graph_update_queue st")
    case Nil
    with 1(2) show ?thesis
      by (simp add: ProcessUpdateQueue.simps only_snapshot_changed_def)
  next
    case (Cons i rest)
    with 1(2) obtain st1 where
      c: "CopyNodeInputValue fuel i (st\<lparr>graph_update_queue := rest\<rparr>) = Inr st1"
      and p: "ProcessUpdateQueue fuel st1 = Inr st'"
      by (auto simp: ProcessUpdateQueue.simps [of fuel st] split: sum.splits)
    from 1(1) [OF Cons c p] CopyNodeInputValue_frame(1) [OF c]
    show ?thesis by (simp add: only_snapshot_changed_def)
  qed
qed

lemma send_job_fields:
  "render_queue (send_job i ticket queue st) = queue"
  "map job_ticket (pool_jobs (send_job i ticket queue st)) = map job_ticket (pool_jobs st) @ [ticket]"
  "workers (send_job i ticket queue st) = (workers st)[i := (workers st ! i)\<lparr>busy := True\<rparr>]"
  "preview_job_time (send_job i ticket queue st) = preview_job_time st"
  "viewer_node (send_job i ticket queue st) = viewer_node st"
  "graph_update_queue (send_job i ticket queue st) = graph_update_queue st"
  "graph (send_job i ticket queue st) = graph st"
  "copy_map (send_job i ticket queue st) = copy_map st"
  "delete_later (send_job i ticket queue st) = delete_later st"
  "tickets (send_job i ticket queue st) = tickets st"
  by (simp_all add: send_job_def Let_def)

lemma RunNextJob_loop_Cons_idle:
  assumes "\<not> busy (workers st ! i)" and "render_queue st = ticket # queue"
    and "RunNextJob_loop (i # rest) st = Inr st'"
  shows "(if queue = [] then Inr (send_job i ticket queue st)
          else RunNextJob_loop rest (send_job i ticket queue st)) = Inr st'"
  using assms by (simp add: Let_def split: if_splits)

lemma RunNextJob_loop_snapshot:
  "RunNextJob_loop is st = Inr st' \<Longrightarrow>
     graph_update_queue st' = graph_update_queue st \<and> graph st' = graph st
     \<and> copy_map st' = copy_map st \<and> delete_later st' = delete_later st
     \<and> tickets st' = tickets st"
proof (induction "is" arbitrary: st)
  case Nil
  then show ?case by simp
next
  case (Cons i rest)
  show ?case
  proof (cases "busy (workers st ! i)")
    case True
    with Cons show ?thesis by simp
  next
    case False
    with Cons.prems obtain ticket queue where q: "render_queue st = ticket # queue"
      by (auto split: if_splits list.splits)
    from RunNextJob_loop_Cons_idle [OF False q Cons.prems]
    show ?thesis
      by (auto simp: send_job_fields split: if_splits dest!: Cons.IH)
  qed
qed

lemma allocate_workers_snapshot:
  "graph_update_queue (allocate_workers st) = graph_update_queue st"
  "graph (allocate_workers st) = graph st"
  "copy_map (allocate_workers st) = copy_map st"
  "delete_later (allocate_workers st) = delete_later st"
  "tickets (allocate_workers st) = tickets st"
  "render_queue (allocate_workers st) = render_queue st"
  "pool_jobs (allocate_workers st) = pool_jobs st"
  by (simp_all add: allocate_workers_def)

lemma RunNextJob_dispatch_snapshot:
  "RunNextJob_dispatch st = Inr st' \<Longrightarrow>
     graph_update_queue st' = graph_update_queue st \<and> graph st' = graph st
     \<and> copy_map st' = copy_map st \<and> delete_later st' = delete_later st
     \<and> tickets st' = tickets st"
  by (auto simp: RunNextJob_dispatch_def Let_def allocate_workers_snapshot
           dest!: RunNextJob_loop_snapshot)

text \<open>
  C2. When the backend tracks the graph and the update queue is not empty:
  if some worker is busy, \<^verbatim>\<open>RunNextJob\<close> returns with the state unchanged, so it neither
  processes the update queue nor dispatches a ticket; whenever \<^verbatim>\<open>RunNextJob\<close> returns a
  changed state, every worker was idle and the update queue has been processed to the
  end. \<^verbatim>\<open>WorkerFinished\<close> marks the sender idle and, with a viewer node set, runs
  \<^verbatim>\<open>RunNextJob\<close> again.
\<close>

theorem RunNextJob_flush_gate:
  assumes "update_with_graph st" and "graph_update_queue st \<noteq> []"
  shows "(\<not> all_workers_available st \<longrightarrow> RunNextJob fuel st = Inr st)
       \<and> (\<forall>st'. RunNextJob fuel st = Inr st' \<and> st' \<noteq> st \<longrightarrow>
             all_workers_available st \<and> graph_update_queue st' = [])
       \<and> (viewer_node st \<noteq> None \<longrightarrow>
             WorkerFinished fuel w st =
               RunNextJob fuel (st\<lparr>workers := set_worker_idle w (workers st)\<rparr>))"
proof -
  have a: "RunNextJob fuel st = Inr st" if "\<not> all_workers_available st"
    using that assms by (simp add: RunNextJob_def)
  have b: "all_workers_available st \<and> graph_update_queue st' = []"
    if r: "RunNextJob fuel st = Inr st'" and ne: "st' \<noteq> st" for st'
  proof -
    from r ne a have av: "all_workers_available st" by auto
    from r ne assms av obtain st1 where
      p: "ProcessUpdateQueue fuel st = Inr st1" and d: "RunNextJob_dispatch st1 = Inr st'"
      by (auto simp: RunNextJob_def split: if_splits sum.splits)
    from ProcessUpdateQueue_Inr [OF p] have "graph_update_queue st1 = []"
      by (simp add: only_snapshot_changed_def)
    with RunNextJob_dispatch_snapshot [OF d] av show ?thesis by simp
  qed
  have c: "WorkerFinished fuel w st =
             RunNextJob fuel (st\<lparr>workers := set_worker_idle w (workers st)\<rparr>)"
    if "viewer_node st \<noteq> None"
    using that by (simp add: WorkerFinished_def Let_def)
  from a b c show ?thesis by blast
qed

theorem RunNextJob_flush_gate_witness:
  "update_with_graph pending_update_backend
   \<and> graph_update_queue pending_update_backend = [NodeInput 2 ''blur'']
   \<and> map busy (workers pending_update_backend) = [True, True]
   \<and> RunNextJob 3 pending_update_backend = Inr pending_update_backend
   \<and> WorkerFinished 3 0 pending_update_backend =
       RunNextJob 3 (pending_update_backend
         \<lparr>workers := set_worker_idle 0 (workers pending_update_backend)\<rparr>)"
proof -
  have u: "update_with_graph pending_update_backend" by code_simp
  have q: "graph_update_queue pending_update_backend = [NodeInput 2 ''blur'']" by code_simp
  then have ne: "graph_update_queue pending_update_backend \<noteq> []" by simp
  have b: "map busy (workers pending_update_backend) = [True, True]" by code_simp
  have na: "\<not> all_workers_available pending_update_backend" by code_simp
  have v: "viewer_node pending_update_backend \<noteq> None" by code_simp
  from RunNextJob_flush_gate [OF u ne, of 3 0] na v u q b show ?thesis by blast
qed

lemma RunNextJob_loop_fifo:
  assumes "render_queue st \<noteq> []" and "distinct is" and "RunNextJob_loop is st = Inr st'"
  shows "render_queue st' =
           drop (min (length (filter (\<lambda>i. \<not> busy (workers st ! i)) is))
                     (length (render_queue st))) (render_queue st)
       \<and> map job_ticket (pool_jobs st') =
           map job_ticket (pool_jobs st) @
           take (min (length (filter (\<lambda>i. \<not> busy (workers st ! i)) is))
                     (length (render_queue st))) (render_queue st)"
  using assms
proof (induction "is" arbitrary: st)
  case Nil
  then show ?case by simp
next
  case (Cons i rest)
  show ?case
  proof (cases "busy (workers st ! i)")
    case True
    with Cons.prems have "RunNextJob_loop rest st = Inr st'" by simp
    from Cons.IH [OF Cons.prems(1) _ this] Cons.prems(2) True show ?thesis by simp
  next
    case idle: False
    from Cons.prems(1) obtain ticket queue where q: "render_queue st = ticket # queue"
      by (cases "render_queue st") auto
    let ?st1 = "send_job i ticket queue st"
    from RunNextJob_loop_Cons_idle [OF idle q Cons.prems(3)]
    have run: "(if queue = [] then Inr ?st1 else RunNextJob_loop rest ?st1) = Inr st'" .
    show ?thesis
    proof (cases "queue = []")
      case True
      with run have "st' = ?st1" by simp
      with q idle True show ?thesis by (simp add: send_job_fields)
    next
      case ne: False
      with run have r: "RunNextJob_loop rest ?st1 = Inr st'" by simp
      from Cons.prems(2) have d: "distinct rest" and ni: "i \<notin> set rest" by auto
      have cnt: "filter (\<lambda>j. \<not> busy (workers ?st1 ! j)) rest
               = filter (\<lambda>j. \<not> busy (workers st ! j)) rest"
      proof (rule filter_cong [OF refl])
        fix j assume "j \<in> set rest"
        with ni have "i \<noteq> j" by auto
        then show "(\<not> busy (workers ?st1 ! j)) = (\<not> busy (workers st ! j))"
          by (simp add: send_job_fields)
      qed
      from ne have "render_queue ?st1 \<noteq> []" by (simp add: send_job_fields)
      note ih = Cons.IH [OF this d r, unfolded cnt]
      then show ?thesis
        by (simp add: q idle send_job_fields(1,2))
    qed
  qed
qed

text \<open>Without a pending flush the dispatch returns: it needs a viewer only for the preview.\<close>

lemma RunNextJob_loop_returns:
  assumes "render_queue st \<noteq> []" and "preview_job_time st = 0 \<or> viewer_node st \<noteq> None"
  shows "\<exists>st'. RunNextJob_loop is st = Inr st'"
  using assms
proof (induction "is" arbitrary: st)
  case Nil
  show ?case by simp
next
  case (Cons i rest)
  show ?case
  proof (cases "busy (workers st ! i)")
    case True
    with Cons show ?thesis by simp
  next
    case idle: False
    from Cons.prems(1) obtain ticket queue where q: "render_queue st = ticket # queue"
      by (cases "render_queue st") auto
    show ?thesis
    proof (cases "queue = []")
      case True
      with idle q Cons.prems(2) show ?thesis by (auto simp: Let_def)
    next
      case False
      have "\<exists>st'. RunNextJob_loop rest (send_job i ticket queue st) = Inr st'"
        using False Cons.prems(2) by (intro Cons.IH) (simp_all add: send_job_fields)
      with idle q False Cons.prems(2) show ?thesis by (auto simp: Let_def)
    qed
  qed
qed

lemma idle_indices:
  "length (filter (\<lambda>i. \<not> busy (ws ! i)) [0..<length ws]) = length (filter (\<lambda>d. \<not> busy d) ws)"
proof -
  have "filter (\<lambda>d. \<not> busy d) (map (\<lambda>i. ws ! i) [0..<length ws])
      = map (\<lambda>i. ws ! i) (filter (\<lambda>i. \<not> busy (ws ! i)) [0..<length ws])"
    by (simp add: filter_map comp_def)
  then have "length (filter (\<lambda>d. \<not> busy d) (map (\<lambda>i. ws ! i) [0..<length ws]))
      = length (filter (\<lambda>i. \<not> busy (ws ! i)) [0..<length ws])"
    by simp
  then show ?thesis by (simp add: map_nth)
qed

lemma RunNextJob_dispatch_fifo:
  assumes "render_queue st \<noteq> []" and "RunNextJob_dispatch st = Inr st'"
  shows "render_queue st' =
           drop (min (idle_workers (allocate_workers st)) (length (render_queue st)))
             (render_queue st)
       \<and> map job_ticket (pool_jobs st') =
           map job_ticket (pool_jobs st) @
           take (min (idle_workers (allocate_workers st)) (length (render_queue st)))
             (render_queue st)"
proof -
  let ?a = "allocate_workers st"
  have ne: "render_queue ?a \<noteq> []" using assms(1) by (simp add: allocate_workers_snapshot)
  have run: "RunNextJob_loop [0..<length (workers ?a)] ?a = Inr st'"
    using assms(2) by (simp add: RunNextJob_dispatch_def Let_def)
  from RunNextJob_loop_fifo [OF ne _ run]
  show ?thesis
    by (simp add: idle_indices idle_workers_def allocate_workers_snapshot)
qed

lemma RunNextJob_dispatch_returns:
  assumes "render_queue st \<noteq> []" and "preview_job_time st = 0 \<or> viewer_node st \<noteq> None"
  shows "\<exists>st'. RunNextJob_dispatch st = Inr st'"
proof -
  have "render_queue (allocate_workers st) \<noteq> []"
    and "preview_job_time (allocate_workers st) = 0 \<or> viewer_node (allocate_workers st) \<noteq> None"
    using assms by (simp_all add: allocate_workers_def)
  then show ?thesis
    unfolding RunNextJob_dispatch_def Let_def by (rule RunNextJob_loop_returns)
qed

lemma RunNextJob_Inr_fifo:
  assumes "RunNextJob fuel st = Inr st'"
  shows "\<exists>n. render_queue st' = drop n (render_queue st)
           \<and> map job_ticket (pool_jobs st') =
               map job_ticket (pool_jobs st) @ take n (render_queue st)
           \<and> tickets st' = tickets st
           \<and> (render_queue st \<noteq> []
                \<and> video_is_valid (video_params st) \<and> audio_is_valid (audio_params st)
                \<and> (update_with_graph st \<and> graph_update_queue st \<noteq> []
                     \<longrightarrow> all_workers_available st)
              \<longrightarrow> n = min (idle_workers (allocate_workers st)) (length (render_queue st)))"
proof (cases "render_queue st \<noteq> []
                \<and> video_is_valid (video_params st) \<and> audio_is_valid (audio_params st)
                \<and> (update_with_graph st \<and> graph_update_queue st \<noteq> []
                     \<longrightarrow> all_workers_available st)")
  case False
  with assms have "st' = st"
    by (auto simp: RunNextJob_def split: if_splits)
  with False show ?thesis
    by (intro exI [of _ 0]) auto
next
  case True
  let ?n = "min (idle_workers (allocate_workers st)) (length (render_queue st))"
  show ?thesis
  proof (cases "update_with_graph st \<and> graph_update_queue st \<noteq> []")
    case False
    with True assms have d: "RunNextJob_dispatch st = Inr st'"
      by (auto simp: RunNextJob_def split: if_splits)
    from True have ne: "render_queue st \<noteq> []" by simp
    from RunNextJob_dispatch_fifo [OF ne d] RunNextJob_dispatch_snapshot [OF d]
    show ?thesis by (intro exI [of _ ?n]) simp
  next
    case flush: True
    with True assms obtain st1 where
      p: "ProcessUpdateQueue fuel st = Inr st1" and d: "RunNextJob_dispatch st1 = Inr st'"
      by (auto simp: RunNextJob_def split: if_splits sum.splits)
    from ProcessUpdateQueue_Inr [OF p]
    have f: "render_queue st1 = render_queue st" "pool_jobs st1 = pool_jobs st"
      "tickets st1 = tickets st" "workers st1 = workers st"
      "pool_max_thread_count st1 = pool_max_thread_count st" "next_worker st1 = next_worker st"
      by (simp_all add: only_snapshot_changed_def)
    have w: "idle_workers (allocate_workers st1) = idle_workers (allocate_workers st)"
      by (simp add: idle_workers_def allocate_workers_def f)
    from True f have ne: "render_queue st1 \<noteq> []" by simp
    from RunNextJob_dispatch_fifo [OF ne d] RunNextJob_dispatch_snapshot [OF d]
    show ?thesis by (intro exI [of _ ?n]) (simp add: f w)
  qed
qed

text \<open>
  C1, as stated, fails: \<^verbatim>\<open>RunNextJob\<close> never reads the cancelled flag of a ticket. The
  render queue holds the tickets 0, 1 and 2, ticket 0 is cancelled, and two workers are
  idle: the jobs submitted to the pool are for the tickets 0 and 1, in that order, and
  ticket 2 stays queued.
\<close>

theorem RunNextJob_cancelled_ticket_counterexample:
  "cancelled (tickets cancelled_ticket_backend 0)
   \<and> render_queue cancelled_ticket_backend = [0, 1, 2]
   \<and> map_sum id (\<lambda>st'. map job_ticket (pool_jobs st')) (RunNextJob 3 cancelled_ticket_backend)
        = Inr [0, 1]
   \<and> map_sum id render_queue (RunNextJob 3 cancelled_ticket_backend) = Inr [2]"
  by code_simp

text \<open>
  C1, amended. The dispatch is first in, first out and does not depend on cancellation.
  When \<^verbatim>\<open>RunNextJob\<close> returns, the tickets of the jobs it has submitted are the first \<open>n\<close>
  tickets of the render queue in their order, cancelled or not, the rest of the queue
  stays, and no ticket is altered. When the queue is not empty, the parameters are valid
  and no update is held back by a busy worker, \<open>n\<close> is the number of idle workers (once
  the workers are allocated) or the length of the queue, whichever is smaller.
  \<^verbatim>\<open>RunNextJob\<close> does return when no update is to be applied (the update queue is empty
  or the graph is not tracked) and a viewer node is set or no preview time is set.
  \<^verbatim>\<open>ClearVideoQueue\<close> cancels every queued ticket, empties the render queue and submits no
  job, and \<^verbatim>\<open>RunNextJob\<close> after it returns without a change: tickets cancelled this way
  are not dispatched.
\<close>

theorem RunNextJob_fifo_whatever_cancelled:
  "(\<forall>st'. RunNextJob fuel st = Inr st' \<longrightarrow>
      (\<exists>n. render_queue st' = drop n (render_queue st)
           \<and> map job_ticket (pool_jobs st') =
               map job_ticket (pool_jobs st) @ take n (render_queue st)
           \<and> tickets st' = tickets st
           \<and> (render_queue st \<noteq> []
                \<and> video_is_valid (video_params st) \<and> audio_is_valid (audio_params st)
                \<and> (update_with_graph st \<and> graph_update_queue st \<noteq> []
                     \<longrightarrow> all_workers_available st)
              \<longrightarrow> n = min (idle_workers (allocate_workers st)) (length (render_queue st)))))
   \<and> ((graph_update_queue st = [] \<or> \<not> update_with_graph st)
        \<and> (preview_job_time st = 0 \<or> viewer_node st \<noteq> None)
      \<longrightarrow> (\<exists>st'. RunNextJob fuel st = Inr st'))
   \<and> (\<forall>t \<in> set (render_queue st). cancelled (tickets (ClearVideoQueue st) t))
   \<and> render_queue (ClearVideoQueue st) = []
   \<and> pool_jobs (ClearVideoQueue st) = pool_jobs st
   \<and> RunNextJob fuel (ClearVideoQueue st) = Inr (ClearVideoQueue st)"
proof -
  have r: "\<exists>st'. RunNextJob fuel st = Inr st'"
    if "graph_update_queue st = [] \<or> \<not> update_with_graph st"
      and "preview_job_time st = 0 \<or> viewer_node st \<noteq> None"
  proof (cases "render_queue st = []
                \<or> \<not> video_is_valid (video_params st) \<or> \<not> audio_is_valid (audio_params st)")
    case True
    then show ?thesis by (auto simp: RunNextJob_def)
  next
    case False
    then have "render_queue st \<noteq> []" by simp
    from RunNextJob_dispatch_returns [OF this that(2)] False that(1)
    show ?thesis by (auto simp: RunNextJob_def)
  qed
  have c1: "\<forall>t \<in> set (render_queue st). cancelled (tickets (ClearVideoQueue st) t)"
    by (simp add: ClearVideoQueue_def fold_Cancel_tickets)
  have c2: "render_queue (ClearVideoQueue st) = []"
    by (simp add: ClearVideoQueue_def)
  have c3: "pool_jobs (ClearVideoQueue st) = pool_jobs st"
    by (simp add: ClearVideoQueue_def fold_Cancel_fields)
  have c4: "RunNextJob fuel (ClearVideoQueue st) = Inr (ClearVideoQueue st)"
    using c2 by (simp add: RunNextJob_def)
  from r RunNextJob_Inr_fifo [of fuel st] c1 c2 c3 c4 show ?thesis by blast
qed

text \<open>
  The theorem at work on the queue of the tickets 0, 1 and 2 with ticket 0 cancelled and
  two idle workers, and on the same queue cleared.
\<close>

theorem RunNextJob_fifo_whatever_cancelled_witness:
  "\<not> isl (RunNextJob 3 cancelled_ticket_backend)
   \<and> idle_workers (allocate_workers cancelled_ticket_backend) = 2
   \<and> render_queue cancelled_ticket_backend = [0, 1, 2]
   \<and> render_queue (projr (RunNextJob 3 cancelled_ticket_backend)) = [2]
   \<and> map job_ticket (pool_jobs (projr (RunNextJob 3 cancelled_ticket_backend))) = [0, 1]
   \<and> tickets (projr (RunNextJob 3 cancelled_ticket_backend)) = tickets cancelled_ticket_backend
   \<and> cancelled (tickets (ClearVideoQueue cancelled_ticket_backend) 1)
   \<and> cancelled (tickets (ClearVideoQueue cancelled_ticket_backend) 2)
   \<and> pool_jobs (ClearVideoQueue cancelled_ticket_backend) = []
   \<and> RunNextJob 3 (ClearVideoQueue cancelled_ticket_backend)
       = Inr (ClearVideoQueue cancelled_ticket_backend)"
proof -
  let ?st = cancelled_ticket_backend
  have ok: "\<not> isl (RunNextJob 3 ?st)" by code_simp
  then have run: "RunNextJob 3 ?st = Inr (projr (RunNextJob 3 ?st))" by simp
  have i: "idle_workers (allocate_workers ?st) = 2" by code_simp
  have q: "render_queue ?st = [0, 1, 2]" by code_simp
  have c: "render_queue ?st \<noteq> []
           \<and> video_is_valid (video_params ?st) \<and> audio_is_valid (audio_params ?st)
           \<and> graph_update_queue ?st = []  \<and> pool_jobs ?st = []"
    by code_simp
  note fifo = RunNextJob_fifo_whatever_cancelled [of 3 ?st]
  from fifo run c i q
  have a: "render_queue (projr (RunNextJob 3 ?st)) = drop 2 [0, 1, 2]
      \<and> map job_ticket (pool_jobs (projr (RunNextJob 3 ?st))) = take 2 [0, 1, 2]
      \<and> tickets (projr (RunNextJob 3 ?st)) = tickets ?st"
    by auto
  from fifo q c
  have b: "cancelled (tickets (ClearVideoQueue ?st) 1)
      \<and> cancelled (tickets (ClearVideoQueue ?st) 2)
      \<and> pool_jobs (ClearVideoQueue ?st) = []
      \<and> RunNextJob 3 (ClearVideoQueue ?st) = Inr (ClearVideoQueue ?st)"
    by simp
  from ok i q a b show ?thesis by simp
qed

subsection \<open>Enqueueing an input that is already covered\<close>




subsection \<open>The two assertions\<close>

text \<open>
  Under the contract the assertion of \<^verbatim>\<open>NodeGraphChanged\<close> holds: the call returns.
\<close>

lemma NodeGraphChanged_returns_under_contract:
  assumes "notification_contract st source"
  shows "\<exists>st'. NodeGraphChanged source st = Inr st'"
  using assms
  by (auto simp: notification_contract_def NodeGraphChanged_def split: option.splits)

text \<open>
  C8. The assertion of \<^verbatim>\<open>CopyNodeInputValue\<close> fails although every report obeyed the
  contract. Node 2 is disconnected from the viewer's texture input, and the texture
  input and the input \<open>''blur''\<close> of node 2 are reported; nodes 1 and 2 have the copies 10
  and 11, so the contract holds at both reports and both inputs are queued. Processing
  the queue applies the texture input first, which removes the copy of node 2 (an
  exclusive dependency of the copied texture input) from the copy map and leaves
  \<open>''blur''\<close> queued; the input \<open>''blur''\<close> then finds no copy of its node and the
  assertion fails, in \<^verbatim>\<open>ProcessUpdateQueue\<close> and in a \<^verbatim>\<open>RunNextJob\<close> that processes the
  queue.
\<close>

theorem ProcessUpdateQueue_assertion_fails:
  "notification_contract disconnected_backend (texture_input 1)
   \<and> notification_contract (projr (NodeGraphChanged (texture_input 1) disconnected_backend))
        (NodeInput 2 ''blur'')
   \<and> map_of (copy_map disconnected_backend) 1 = Some 10
   \<and> map_of (copy_map (projr (NodeGraphChanged (texture_input 1) disconnected_backend))) 2
        = Some 11
   \<and> graph_update_queue stale_queue_backend = [texture_input 1, NodeInput 2 ''blur'']
   \<and> map_sum id (\<lambda>st'. (graph_update_queue st', map_of (copy_map st') 2))
        (CopyNodeInputValue 3 (texture_input 1)
           (stale_queue_backend\<lparr>graph_update_queue := [NodeInput 2 ''blur'']\<rparr>))
        = Inr ([NodeInput 2 ''blur''], None)
   \<and> map_sum id copy_map (ProcessUpdateQueue 3 stale_queue_backend) = Inl AssertionFailed
   \<and> map_sum id copy_map (RunNextJob 3 (snd (RenderFrame 1 stale_queue_backend)))
        = Inl AssertionFailed"
  by code_simp

text \<open>Both calls end in the failed assertion.\<close>

theorem ProcessUpdateQueue_assertion_fails_witness:
  "ProcessUpdateQueue 3 stale_queue_backend = Inl AssertionFailed
   \<and> RunNextJob 3 (snd (RenderFrame 1 stale_queue_backend)) = Inl AssertionFailed"
proof -
  from ProcessUpdateQueue_assertion_fails
  have a: "map_sum id copy_map (ProcessUpdateQueue 3 stale_queue_backend)
             = Inl AssertionFailed"
    and b: "map_sum id copy_map (RunNextJob 3 (snd (RenderFrame 1 stale_queue_backend)))
             = Inl AssertionFailed"
    by blast+
  from a have "ProcessUpdateQueue 3 stale_queue_backend = Inl AssertionFailed"
    by (cases "ProcessUpdateQueue 3 stale_queue_backend") auto
  moreover from b
  have "RunNextJob 3 (snd (RenderFrame 1 stale_queue_backend)) = Inl AssertionFailed"
    by (cases "RunNextJob 3 (snd (RenderFrame 1 stale_queue_backend))") auto
  ultimately show ?thesis by blast
qed

subsection \<open>Splitting a range into chunks\<close>

text \<open>
  Conversions and divisions that are exact: a number \<open>m / 2 ^ j\<close> from 1 on with
  \<open>m < 2 ^ 53\<close> is a double, and rounding leaves it as it is.
\<close>

lemma round_half_even_of_int: "round_half_even (of_int n) = n"
  by (simp add: round_half_even_def)

lemma binade_lower:
  assumes "1 \<le> x"
  shows "0 \<le> binade x" and "2 ^ nat (binade x) \<le> x"
proof -
  from assms have F: "0 < \<lfloor>x\<rfloor>" by simp
  from bitlen_bounds [OF F] have b: "2 ^ nat (bitlen \<lfloor>x\<rfloor> - 1) \<le> \<lfloor>x\<rfloor>" by blast
  have "bitlen \<lfloor>x\<rfloor> \<noteq> 0" using F by (simp add: bitlen_eq_zero_iff)
  with bitlen_nonneg [of "\<lfloor>x\<rfloor>"] show "0 \<le> binade x" using assms by (simp add: binade_def)
  from b have "rat_of_int (2 ^ nat (bitlen \<lfloor>x\<rfloor> - 1)) \<le> of_int \<lfloor>x\<rfloor>"
    by (simp only: of_int_le_iff)
  also have "\<dots> \<le> x" by simp
  finally show "2 ^ nat (binade x) \<le> x" using assms by (simp add: binade_def)
qed

lemma to_double_exact:
  assumes m: "m < 2 ^ 53" and x: "1 \<le> rat_of_int m / 2 ^ j"
  shows "to_double (of_int m / 2 ^ j) = of_int m / 2 ^ j"
proof -
  let ?x = "rat_of_int m / 2 ^ j"
  define e where "e = binade ?x"
  have x0: "0 < ?x" using x by linarith
  have e0: "0 \<le> e" and lo: "2 ^ nat e \<le> ?x" using binade_lower [OF x] by (simp_all add: e_def)
  have "rat_of_int (2 ^ (nat e + j)) = 2 ^ nat e * 2 ^ j" by (simp add: power_add)
  also have "\<dots> \<le> of_int m" using lo by (simp add: pos_le_divide_eq)
  finally have "(2::int) ^ (nat e + j) \<le> m" by (simp only: of_int_le_iff)
  with m have "(2::int) ^ (nat e + j) < 2 ^ 53" by linarith
  then have ej: "nat e + j < 53" by (simp only: power_strict_increasing_iff [of 2] one_less_numeral_iff semiring_norm)
  have ax: "\<bar>?x\<bar> = ?x" using x0 by (rule abs_of_pos)
  have xn: "?x \<noteq> 0" using x0 by (rule less_imp_neq [THEN not_sym])
  have td: "to_double ?x = of_int (round_half_even (?x / ulp e)) * ulp e"
    unfolding to_double_def Let_def ax e_def using xn by (simp only: if_False)
  show ?thesis
  proof (cases "52 \<le> e")
    case True
    with ej e0 have j: "j = 0" by linarith
    from True have "ulp e = 2 ^ nat (e - 52)" by (simp add: ulp_def)
    moreover from True ej e0 have "nat (e - 52) = 0" by linarith
    ultimately have u: "ulp e = 1" by simp
    have "?x / ulp e = of_int m" by (simp add: u j)
    then have "round_half_even (?x / ulp e) = m" by (simp only: round_half_even_of_int)
    with td show ?thesis by (simp add: u j)
  next
    case False
    define n where "n = nat (52 - e)"
    have u: "ulp e = 1 / 2 ^ n" using False by (simp add: ulp_def n_def)
    have jn: "j \<le> n" using ej e0 False by (simp add: n_def)
    then obtain d where n: "n = j + d" using le_Suc_ex by blast
    have q: "?x / ulp e = of_int (m * 2 ^ d)" by (simp add: u n power_add)
    have "to_double ?x = of_int (m * 2 ^ d) * ulp e"
      by (simp only: td q round_half_even_of_int)
    also have "\<dots> = ?x" by (simp add: u n power_add)
    finally show ?thesis .
  qed
qed

lemma to_double_of_int:
  assumes "0 \<le> m" and "m < 2 ^ 53"
  shows "to_double (of_int m) = of_int m"
proof (cases "m = 0")
  case True
  then show ?thesis by (simp add: to_double_def)
next
  case False
  with assms(1) have "1 \<le> rat_of_int m / 2 ^ 0" by simp
  from to_double_exact [OF assms(2) this] show ?thesis by simp
qed

lemma to_double_half: "to_double (1 / 2) = 1 / 2"
  by code_simp

lemma toDouble_of_int:
  assumes "0 \<le> m" and "m < 2 ^ 53"
  shows "toDouble (of_int m) = of_int m"
proof -
  have q: "quotient_of (rat_of_int m) = (m, 1)"
    using quotient_of_int [of m] by (simp add: Rat.of_int_def)
  have one: "to_double 1 = 1" using to_double_of_int [of 1] by simp
  show ?thesis
    by (simp add: toDouble_def q double_divide_def one to_double_of_int [OF assms])
qed

lemma double_quotient_of_int_2:
  assumes "0 \<le> m" and "m < 2 ^ 53"
  shows "double_quotient (of_int m) 2 = of_int m / 2"
proof -
  have two: "to_double 2 = 2" using to_double_of_int [of 2] by simp
  have h: "to_double (rat_of_int m / 2) = of_int m / 2"
  proof (cases "m \<le> 1")
    case True
    with assms(1) have "m = 0 \<or> m = 1" by linarith
    then show ?thesis using to_double_half by (auto simp: to_double_def)
  next
    case False
    then have "1 \<le> rat_of_int m / 2 ^ 1" by simp
    from to_double_exact [OF assms(2) this] show ?thesis by simp
  qed
  show ?thesis
    by (simp add: double_quotient_def double_divide_def toDouble_of_int [OF assms] two h)
qed

lemma int32_Inr: "- (2 ^ 31) \<le> x \<Longrightarrow> x < 2 ^ 31 \<Longrightarrow> int32 x = Inr x"
  by (simp add: int32_def)

lemma SplitRangeIntoChunks_loop_nth:
  assumes "0 < cs" and "- (2 ^ 31) \<le> i" and "e < 2 ^ 31"
    and "e = i + int n * cs"
  shows "\<exists>chunks. SplitRangeIntoChunks_loop cs r i e = Inr chunks
           \<and> length chunks = n
           \<and> (\<forall>k < n. chunks ! k =
                 \<lparr> range_in = max (range_in r) (of_int (i + int k * cs)),
                   range_out = min (range_out r) (of_int (i + (int k + 1) * cs)) \<rparr>)"
  using assms
proof (induction n arbitrary: i)
  case 0
  then have "e = i" by simp
  then show ?case by (simp add: SplitRangeIntoChunks_loop.simps [of cs r i i])
next
  case (Suc n)
  have le: "i + cs \<le> e"
  proof -
    have "0 \<le> int n * cs" using Suc.prems(1) by simp
    with Suc.prems(4) show ?thesis by (simp add: algebra_simps)
  qed
  with Suc.prems(1) have lt: "i < e" by simp
  have n32: "int32 (i + cs) = Inr (i + cs)"
  proof (rule int32_Inr)
    show "- (2 ^ 31) \<le> i + cs" using Suc.prems(1,2) by simp
    show "i + cs < 2 ^ 31" using le Suc.prems(3) by simp
  qed
  have e': "e = (i + cs) + int n * cs" using Suc.prems(4) by (simp add: algebra_simps)
  have lo: "- (2 ^ 31) \<le> i + cs" using Suc.prems by simp
  from Suc.IH [OF Suc.prems(1) lo Suc.prems(3) e'] obtain chunks where
    r: "SplitRangeIntoChunks_loop cs r (i + cs) e = Inr chunks" and l: "length chunks = n"
    and nth: "\<forall>k < n. chunks ! k =
                 \<lparr> range_in = max (range_in r) (of_int (i + cs + int k * cs)),
                   range_out = min (range_out r) (of_int (i + cs + (int k + 1) * cs)) \<rparr>"
    by blast
  let ?c = "\<lparr> range_in = max (range_in r) (of_int i),
              range_out = min (range_out r) (of_int (i + cs)) \<rparr>"
  have run: "SplitRangeIntoChunks_loop cs r i e = Inr (?c # chunks)"
    using lt Suc.prems(1) n32 r by (simp add: SplitRangeIntoChunks_loop.simps [of cs r i e])
  have "(?c # chunks) ! k =
          \<lparr> range_in = max (range_in r) (of_int (i + int k * cs)),
            range_out = min (range_out r) (of_int (i + (int k + 1) * cs)) \<rparr>"
    if "k < Suc n" for k
  proof (cases k)
    case 0
    then show ?thesis by simp
  next
    case (Suc k')
    with that have "k' < n" by simp
    with nth Suc show ?thesis by (simp add: algebra_simps)
  qed
  with run l show ?case by auto
qed



lemma SplitRangeIntoChunks_with_partition:
  assumes cs1: "1 \<le> cs" and in0: "0 \<le> range_in r" and io: "range_in r \<le> range_out r"
    and bound: "range_out r + of_int cs \<le> 2 ^ 31"
    and fl: "\<lfloor>double_quotient (range_in r) cs\<rfloor> = \<lfloor>range_in r / of_int cs\<rfloor>"
    and ce: "\<lceil>double_quotient (range_out r) cs\<rceil> = \<lceil>range_out r / of_int cs\<rceil>"
  shows "\<exists>chunks. SplitRangeIntoChunks_with cs r = Inr chunks \<and> chunks_partition cs r chunks"
proof -
  define a where "a = range_in r"
  define b where "b = range_out r"
  define c :: rat where "c = of_int cs"
  define fi where "fi = \<lfloor>a / c\<rfloor>"
  define co where "co = \<lceil>b / c\<rceil>"
  define s where "s = fi * cs"
  define e where "e = co * cs"
  define n where "n = nat (co - fi)"
  have c1: "1 \<le> c" and c0: "0 < c" using cs1 by (simp_all add: c_def)
  have S: "rat_of_int s = of_int fi * c" and E: "rat_of_int e = of_int co * c"
    by (simp_all add: s_def e_def c_def)
  have F1: "of_int s \<le> a" unfolding S fi_def using c0 by (rule floor_divide_lower)
  have F2: "a < of_int s + c"
    using floor_divide_upper [OF c0, of a] by (simp add: S fi_def algebra_simps)
  have F3: "b \<le> of_int e" unfolding E co_def using c0 by (rule ceiling_divide_upper)
  have F4: "of_int e - c < b"
    using ceiling_divide_lower [OF c0, of b] by (simp add: E co_def algebra_simps)
  have a0: "0 \<le> a" and ab: "a \<le> b" and bb: "b + c \<le> 2 ^ 31"
    using in0 io bound by (simp_all add: a_def b_def c_def)
  have fi0: "0 \<le> fi" using a0 c0 by (simp add: fi_def)
  have "a / c \<le> b / c" using ab c0 by (simp add: divide_right_mono)
  then have "\<lfloor>a / c\<rfloor> \<le> \<lceil>b / c\<rceil>"
    by (meson floor_mono floor_le_ceiling order_trans)
  then have fico: "fi \<le> co" by (simp add: fi_def co_def)
  with fi0 have co0: "0 \<le> co" by simp
  have s_lt: "s < 2 ^ 31"
  proof -
    have "rat_of_int s < 2 ^ 31" using F1 ab bb c0 by linarith
    then have "rat_of_int s < rat_of_int (2 ^ 31)" by simp
    then show ?thesis by (simp only: of_int_less_iff)
  qed
  have e_lt: "e < 2 ^ 31"
  proof -
    have "rat_of_int e < 2 ^ 31" using F4 bb by linarith
    then have "rat_of_int e < rat_of_int (2 ^ 31)" by simp
    then show ?thesis by (simp only: of_int_less_iff)
  qed
  have fis: "fi \<le> s" using fi0 cs1 by (simp add: s_def mult_le_cancel_left1)
  have coe: "co \<le> e" using co0 cs1 by (simp add: e_def mult_le_cancel_left1)
  have s0: "0 \<le> s" using fi0 cs1 by (simp add: s_def)
  have i1: "int32 fi = Inr fi" using fi0 fis s_lt by (intro int32_Inr) auto
  have i2: "int32 (fi * cs) = Inr s"
    using int32_Inr [of s] s0 s_lt by (simp add: s_def)
  have i3: "int32 co = Inr co" using co0 coe e_lt by (intro int32_Inr) auto
  have e0: "0 \<le> e" using co0 cs1 by (simp add: e_def)
  have i4: "int32 (co * cs) = Inr e"
    using int32_Inr [of e] e0 e_lt by (simp add: e_def)
  have en: "e = s + int n * cs" using fico by (simp add: n_def s_def e_def algebra_simps)
  have cs0: "0 < cs" using cs1 by simp
  have lo: "- (2 ^ 31) \<le> s" using s0 by simp
  from SplitRangeIntoChunks_loop_nth [OF cs0 lo e_lt en, of r] obtain chunks where
    run: "SplitRangeIntoChunks_loop cs r s e = Inr chunks" and len: "length chunks = n"
    and nth: "\<forall>k < n. chunks ! k =
                 \<lparr> range_in = max a (of_int (s + int k * cs)),
                   range_out = min b (of_int (s + (int k + 1) * cs)) \<rparr>"
    unfolding a_def b_def by blast
  have fl': "\<lfloor>double_quotient (range_in r) cs\<rfloor> = fi"
    and ce': "\<lceil>double_quotient (range_out r) cs\<rceil> = co"
    using fl ce by (simp_all add: fi_def co_def a_def b_def c_def)
  have whole: "SplitRangeIntoChunks_with cs r = Inr chunks"
    unfolding SplitRangeIntoChunks_with_def fl' ce' using cs1 i1 i2 i3 i4 run by simp
  have X: "rat_of_int (s + int k * cs) = of_int s + of_nat k * c" for k
    by (simp add: c_def)
  have X1: "rat_of_int (s + (int k + 1) * cs) = of_int s + of_nat k * c + c" for k
    by (simp add: c_def algebra_simps)
  have En: "rat_of_int e = of_int s + of_nat n * c" using en by (simp add: c_def)
  have kc: "of_nat k * c + c \<le> of_nat n * c" if "k < n" for k
  proof -
    from that have "Suc k \<le> n" by simp
    then have "rat_of_nat (Suc k) \<le> of_nat n" by (simp only: of_nat_le_iff)
    then have "rat_of_nat (Suc k) * c \<le> of_nat n * c" using c0 by (simp add: mult_right_mono)
    then show ?thesis by (simp add: algebra_simps)
  qed
  have kc0: "0 \<le> rat_of_nat k * c" for k using c0 by simp
  have rin: "range_in (chunks ! k) = max a (of_int s + of_nat k * c)"
    and rout: "range_out (chunks ! k) = min b (of_int s + of_nat k * c + c)" if "k < n" for k
  proof -
    from nth that have "chunks ! k =
        \<lparr> range_in = max a (of_int (s + int k * cs)),
          range_out = min b (of_int (s + (int k + 1) * cs)) \<rparr>" by blast
    then show "range_in (chunks ! k) = max a (of_int s + of_nat k * c)"
      and "range_out (chunks ! k) = min b (of_int s + of_nat k * c + c)"
      by (simp_all only: X X1 TimeRange.simps)
  qed
  have rin_pos: "range_in (chunks ! k) = of_int s + of_nat k * c" if "k < n" "0 < k" for k
  proof -
    from that(2) have "1 \<le> rat_of_nat k" by simp
    then have "c \<le> rat_of_nat k * c" using c0 by (simp add: mult_le_cancel_right1)
    with F2 have "a \<le> of_int s + of_nat k * c" by linarith
    with rin [OF that(1)] show ?thesis by simp
  qed
  have rout_inner: "range_out (chunks ! k) = of_int s + of_nat k * c + c" if "Suc k < n" for k
  proof -
    from kc [OF that] have "of_nat k * c + c + c \<le> of_nat n * c" by (simp add: algebra_simps)
    with F4 En have "of_int s + of_nat k * c + c \<le> b" by linarith
    moreover from that have "k < n" by simp
    ultimately show ?thesis using rout by simp
  qed
  have p1: "range_in r = range_out r" if "chunks = []"
  proof -
    from that len have "n = 0" by simp
    with En F3 F1 ab show ?thesis by (simp add: a_def b_def)
  qed
  have p2: "range_in (hd chunks) = range_in r \<and> range_out (last chunks) = range_out r"
    if ne: "chunks \<noteq> []"
  proof -
    from ne len have n0: "0 < n" by (cases chunks) auto
    have "hd chunks = chunks ! 0" using ne by (simp add: hd_conv_nth)
    with rin [OF n0] F1 have h: "range_in (hd chunks) = a" by simp
    have "last chunks = chunks ! (n - 1)" using ne len by (simp add: last_conv_nth)
    moreover have "n - 1 < n" using n0 by simp
    moreover have "rat_of_nat (n - 1) * c + c = of_nat n * c"
      using n0 by (simp add: of_nat_diff algebra_simps)
    ultimately have "range_out (last chunks) = min b (of_int e)"
      using rout [of "n - 1"] En by (simp add: add.assoc)
    with F3 have "range_out (last chunks) = b" by simp
    with h show ?thesis by (simp add: a_def b_def)
  qed
  have p3: "range_out (chunks ! k) = range_in (chunks ! Suc k)
            \<and> (\<exists>m::int. range_out (chunks ! k) = of_int (m * cs))"
    if "Suc k < length chunks" for k
  proof -
    from that len have sk: "Suc k < n" by simp
    have "range_in (chunks ! Suc k) = of_int s + of_nat (Suc k) * c"
      using rin_pos [OF sk] by simp
    with rout_inner [OF sk] have eq: "range_out (chunks ! k) = range_in (chunks ! Suc k)"
      by (simp add: algebra_simps)
    have "range_out (chunks ! k) = of_int ((fi + int k + 1) * cs)"
      using rout_inner [OF sk] by (simp add: S c_def algebra_simps)
    with eq show ?thesis by blast
  qed
  have p4: "range_in r \<le> range_in x \<and> range_in x \<le> range_out x
            \<and> range_out x \<le> range_out r \<and> range_out x - range_in x \<le> of_int cs"
    if "x \<in> set chunks" for x
  proof -
    from that len obtain k where k: "k < n" and x: "x = chunks ! k"
      by (auto simp: in_set_conv_nth)
    let ?X = "rat_of_int s + of_nat k * c"
    have i: "range_in x = max a ?X" and o: "range_out x = min b (?X + c)"
      using rin [OF k] rout [OF k] x by simp_all
    have "?X + c \<le> of_int e" using kc [OF k] En by (simp add: add.assoc)
    with F4 have Xb: "?X < b" by linarith
    have aX: "a < ?X + c" using F2 kc0 [of k] by linarith
    from i o ab Xb aX c0 show ?thesis
      by (simp add: a_def b_def c_def [symmetric] max_def min_def)
  qed
  from p1 p2 p3 p4 have "chunks_partition cs r chunks"
    unfolding chunks_partition_def by blast
  with whole show ?thesis by blast
qed

text \<open>
  C9, as stated, fails in two ways. The quotient \<^verbatim>\<open>r.out().toDouble() / 2\<close> is rounded: for
  the range from 0 to \<open>2 + 2 ^ - 60\<close>, whose end is the fraction of \<open>2 ^ 61 + 1\<close> and
  \<open>2 ^ 60\<close>, the numerator is rounded to \<open>2 ^ 61\<close>, the end time is 2, and the only chunk
  is the one from 0 to 2, which does not reach the end of the range. And the times are
  computed in \<^verbatim>\<open>int\<close>: for the range from 0 to \<open>2 ^ 31\<close> the end time
  \<^verbatim>\<open>qCeil(2 ^ 31 / 2) * 2\<close> does not fit an \<^verbatim>\<open>int\<close>, and the function produces no chunks
  that cover the range.
\<close>

theorem SplitRangeIntoChunks_counterexample:
  "SplitRangeIntoChunks \<lparr> range_in = 0, range_out = (2 ^ 61 + 1) / 2 ^ 60 \<rparr> =
     Inr [\<lparr> range_in = 0, range_out = 2 \<rparr>]
   \<and> \<not> chunks_partition 2 \<lparr> range_in = 0, range_out = (2 ^ 61 + 1) / 2 ^ 60 \<rparr>
         [\<lparr> range_in = 0, range_out = 2 \<rparr>]
   \<and> SplitRangeIntoChunks \<lparr> range_in = 0, range_out = 2 ^ 31 \<rparr> = Inl IntegerOverflow"
proof -
  have a: "SplitRangeIntoChunks \<lparr> range_in = 0, range_out = (2 ^ 61 + 1) / 2 ^ 60 \<rparr> =
     Inr [\<lparr> range_in = 0, range_out = 2 \<rparr>]"
    by code_simp
  have b: "\<not> chunks_partition 2 \<lparr> range_in = 0, range_out = (2 ^ 61 + 1) / 2 ^ 60 \<rparr>
         [\<lparr> range_in = 0, range_out = 2 \<rparr>]"
    by (simp add: chunks_partition_def)
  have c: "SplitRangeIntoChunks \<lparr> range_in = 0, range_out = 2 ^ 31 \<rparr> = Inl IntegerOverflow"
    by code_simp
  from a b c show ?thesis by blast
qed

text \<open>
  C9, amended. The range from 0 to 5 is split into the chunks from 0 to 2, from 2 to 4
  and from 4 to 5, in this order. For every chunk size from 1 on and every range with
  \<open>0 \<le> in \<le> out\<close> and \<open>out + chunk_size \<le> 2 ^ 31\<close> (so that the times fit an \<^verbatim>\<open>int\<close>), for
  which the quotients computed in \<^verbatim>\<open>double\<close> have the floor of \<open>in / chunk_size\<close> and the
  ceiling of \<open>out / chunk_size\<close> (the rounding does not cross an integer), the function
  returns chunks that are consecutive, meet at multiples of the chunk size, lie inside
  the range, and reach from its start to its end. For the chunk size 2 of the source
  this holds for every range whose bounds are integers with \<open>0 \<le> in \<le> out \<le> 2 ^ 31 - 2\<close>.
\<close>

theorem SplitRangeIntoChunks_partition:
  "SplitRangeIntoChunks \<lparr> range_in = 0, range_out = 5 \<rparr> =
     Inr [\<lparr> range_in = 0, range_out = 2 \<rparr>, \<lparr> range_in = 2, range_out = 4 \<rparr>,
          \<lparr> range_in = 4, range_out = 5 \<rparr>]
   \<and> (1 \<le> chunk_size \<and> 0 \<le> range_in r \<and> range_in r \<le> range_out r
        \<and> range_out r + of_int chunk_size \<le> 2 ^ 31
        \<and> \<lfloor>double_quotient (range_in r) chunk_size\<rfloor> = \<lfloor>range_in r / of_int chunk_size\<rfloor>
        \<and> \<lceil>double_quotient (range_out r) chunk_size\<rceil> = \<lceil>range_out r / of_int chunk_size\<rceil>
      \<longrightarrow> (\<exists>chunks. SplitRangeIntoChunks_with chunk_size r = Inr chunks
                \<and> chunks_partition chunk_size r chunks))
   \<and> (range_in r = of_int a \<and> range_out r = of_int b \<and> 0 \<le> a \<and> a \<le> b \<and> b \<le> 2 ^ 31 - 2
      \<longrightarrow> (\<exists>chunks. SplitRangeIntoChunks r = Inr chunks \<and> chunks_partition 2 r chunks))"
proof -
  have p1: "SplitRangeIntoChunks \<lparr> range_in = 0, range_out = 5 \<rparr> =
     Inr [\<lparr> range_in = 0, range_out = 2 \<rparr>, \<lparr> range_in = 2, range_out = 4 \<rparr>,
          \<lparr> range_in = 4, range_out = 5 \<rparr>]"
    by code_simp
  have p2: "\<exists>chunks. SplitRangeIntoChunks_with chunk_size r = Inr chunks
                \<and> chunks_partition chunk_size r chunks"
    if "1 \<le> chunk_size \<and> 0 \<le> range_in r \<and> range_in r \<le> range_out r
        \<and> range_out r + of_int chunk_size \<le> 2 ^ 31
        \<and> \<lfloor>double_quotient (range_in r) chunk_size\<rfloor> = \<lfloor>range_in r / of_int chunk_size\<rfloor>
        \<and> \<lceil>double_quotient (range_out r) chunk_size\<rceil> = \<lceil>range_out r / of_int chunk_size\<rceil>"
    using that by (intro SplitRangeIntoChunks_with_partition) simp_all
  have p3: "\<exists>chunks. SplitRangeIntoChunks r = Inr chunks \<and> chunks_partition 2 r chunks"
    if h: "range_in r = of_int a \<and> range_out r = of_int b \<and> 0 \<le> a \<and> a \<le> b \<and> b \<le> 2 ^ 31 - 2"
  proof -
    from h have a53: "0 \<le> a" "a < 2 ^ 53" and b53: "0 \<le> b" "b < 2 ^ 53" by simp_all
    have ra: "range_in r = of_int a" and rb: "range_out r = of_int b" using h by simp_all
    have fl: "\<lfloor>double_quotient (range_in r) 2\<rfloor> = \<lfloor>range_in r / of_int 2\<rfloor>"
      unfolding ra by (simp only: double_quotient_of_int_2 [OF a53] of_int_numeral)
    have ce: "\<lceil>double_quotient (range_out r) 2\<rceil> = \<lceil>range_out r / of_int 2\<rceil>"
      unfolding rb by (simp only: double_quotient_of_int_2 [OF b53] of_int_numeral)
    have in0: "0 \<le> range_in r" and io: "range_in r \<le> range_out r"
      using h by simp_all
    have "rat_of_int b \<le> of_int (2 ^ 31 - 2)" using h by (simp only: of_int_le_iff)
    then have bound: "range_out r + of_int 2 \<le> 2 ^ 31" using h by simp
    show ?thesis
      unfolding SplitRangeIntoChunks_def
      by (rule SplitRangeIntoChunks_with_partition [OF _ in0 io bound fl ce]) simp
  qed
  from p1 p2 p3 show ?thesis by blast
qed

text \<open>
  The theorem at work: the range from \<open>1 / 2\<close> to \<open>15 / 2\<close> with the chunk size 3, where
  the two quotients are rounded without crossing an integer, and the range from 1 to 4
  with the chunk size 2 of the source.
\<close>

theorem SplitRangeIntoChunks_partition_witness:
  "SplitRangeIntoChunks_with 3 \<lparr> range_in = 1 / 2, range_out = 15 / 2 \<rparr> =
     Inr [\<lparr> range_in = 1 / 2, range_out = 3 \<rparr>, \<lparr> range_in = 3, range_out = 6 \<rparr>,
          \<lparr> range_in = 6, range_out = 15 / 2 \<rparr>]
   \<and> chunks_partition 3 \<lparr> range_in = 1 / 2, range_out = 15 / 2 \<rparr>
        [\<lparr> range_in = 1 / 2, range_out = 3 \<rparr>, \<lparr> range_in = 3, range_out = 6 \<rparr>,
         \<lparr> range_in = 6, range_out = 15 / 2 \<rparr>]
   \<and> SplitRangeIntoChunks \<lparr> range_in = 1, range_out = 4 \<rparr> =
     Inr [\<lparr> range_in = 1, range_out = 2 \<rparr>, \<lparr> range_in = 2, range_out = 4 \<rparr>]
   \<and> chunks_partition 2 \<lparr> range_in = 1, range_out = 4 \<rparr>
        [\<lparr> range_in = 1, range_out = 2 \<rparr>, \<lparr> range_in = 2, range_out = 4 \<rparr>]"
proof -
  let ?r = "\<lparr> range_in = 1 / 2, range_out = 15 / 2 \<rparr>"
  let ?q = "\<lparr> range_in = 1, range_out = 4 \<rparr>"
  have e: "SplitRangeIntoChunks_with 3 ?r =
     Inr [\<lparr> range_in = 1 / 2, range_out = 3 \<rparr>, \<lparr> range_in = 3, range_out = 6 \<rparr>,
          \<lparr> range_in = 6, range_out = 15 / 2 \<rparr>]"
    by code_simp
  have fl: "\<lfloor>double_quotient (1 / 2) 3\<rfloor> = \<lfloor>(1 / 2) / rat_of_int 3\<rfloor>"
    and ce: "\<lceil>double_quotient (15 / 2) 3\<rceil> = \<lceil>(15 / 2) / rat_of_int 3\<rceil>"
    by code_simp+
  have h: "1 \<le> (3::int) \<and> 0 \<le> range_in ?r \<and> range_in ?r \<le> range_out ?r
        \<and> range_out ?r + of_int 3 \<le> 2 ^ 31
        \<and> \<lfloor>double_quotient (range_in ?r) 3\<rfloor> = \<lfloor>range_in ?r / of_int 3\<rfloor>
        \<and> \<lceil>double_quotient (range_out ?r) 3\<rceil> = \<lceil>range_out ?r / of_int 3\<rceil>"
    using fl ce by simp
  from SplitRangeIntoChunks_partition [of 3 ?r 0 0] h
  obtain chunks where "SplitRangeIntoChunks_with 3 ?r = Inr chunks" "chunks_partition 3 ?r chunks"
    by blast
  with e have A: "chunks_partition 3 ?r
        [\<lparr> range_in = 1 / 2, range_out = 3 \<rparr>, \<lparr> range_in = 3, range_out = 6 \<rparr>,
         \<lparr> range_in = 6, range_out = 15 / 2 \<rparr>]" by simp
  have f: "SplitRangeIntoChunks ?q =
     Inr [\<lparr> range_in = 1, range_out = 2 \<rparr>, \<lparr> range_in = 2, range_out = 4 \<rparr>]"
    by code_simp
  have g: "range_in ?q = of_int 1 \<and> range_out ?q = of_int 4 \<and> (0::int) \<le> 1 \<and> (1::int) \<le> 4
           \<and> (4::int) \<le> 2 ^ 31 - 2"
    by simp
  from SplitRangeIntoChunks_partition [of 2 ?q 1 4] g
  obtain chunks2 where "SplitRangeIntoChunks ?q = Inr chunks2" "chunks_partition 2 ?q chunks2"
    by blast
  with f have B: "chunks_partition 2 ?q
        [\<lparr> range_in = 1, range_out = 2 \<rparr>, \<lparr> range_in = 2, range_out = 4 \<rparr>]" by simp
  from e A f B show ?thesis by blast
qed

end
